theory Spec2Isabelle
  imports Complex_Main "HOL-Library.Word"
begin

unbundle bit_operations_syntax

section \<open>JavaScript values used by the weather service\<close>

text \<open>
  A JavaScript string is a sequence of UTF-16 code units: \<open>length\<close> counts code units,
  \<open>charCodeAt\<close> reads one, and \<open>===\<close> compares the sequences. The model keeps that
  representation, so that a character outside ASCII (the narrow no-break space that
  \<open>Intl.DateTimeFormat\<close> may put before AM/PM, say) is one element of the list.
  String literals of the source are ASCII and are written through \<open>js\<close>.

  The model follows the declared TypeScript types: a \<open>Record<string, T>\<close> is a finite map
  on its own keys, a \<open>FolderManifest\<close> is an array of strings, a condition code is an
  integer.
\<close>

type_synonym code_unit = "16 word"
type_synonym jsstring = "code_unit list"

definition js :: "string \<Rightarrow> jsstring" where
  "js s = map of_char s"

definition charCode :: "code_unit \<Rightarrow> int" where
  "charCode c = uint c"

text \<open>The interfaces \<open>City\<close> (its field \<open>id\<close> is \<open>id_city\<close> here) and \<open>WeatherData\<close>.\<close>

record City =
  id_city :: jsstring
  name :: jsstring
  country :: jsstring
  lat :: real
  lng :: real
  timezone :: jsstring

record WeatherData =
  temperature :: real
  conditionCode :: int
  conditionText :: jsstring
  isDay :: bool
  localTime :: jsstring

section \<open>Weather category\<close>

text \<open>
  \<open>getWeatherCategory\<close> (weatherService.ts): \<open>null\<close> for a \<open>null\<close> snapshot, otherwise
  the condition class, a dash, and day or night.
\<close>

definition condition_class :: "int \<Rightarrow> jsstring" where
  "condition_class code =
     (if code \<in> set [71, 73, 75, 77, 85, 86] then js ''snow''
      else if code \<in> set [51, 53, 55, 56, 57, 61, 63, 65, 66, 67, 80, 81, 82, 95, 96, 99]
        then js ''rain''
      else js ''clear'')"

definition getWeatherCategory :: "WeatherData option \<Rightarrow> jsstring option" where
  "getWeatherCategory weather =
     (case weather of
        None \<Rightarrow> None
      | Some w \<Rightarrow>
          Some (condition_class (conditionCode w) @ js ''-''
                @ (if isDay w then js ''day'' else js ''night'')))"

section \<open>Image selection\<close>

definition RAW_GITHUB_BASE :: jsstring where
  "RAW_GITHUB_BASE =
     js ''https://raw.githubusercontent.com/Shellwecode/weather-illustrations/main''"

text \<open>
  \<open>ToInt32\<close>, the conversion behind \<open><<\<close> and \<open>|\<close>: the integer congruent modulo
  \<open>2^32\<close> in the signed range.
\<close>

definition to_int32 :: "int \<Rightarrow> int" where
  "to_int32 x = (x + 2 ^ 31) mod 2 ^ 32 - 2 ^ 31"

text \<open>
  One round of the loop body: \<open>hash = ((hash << 5) - hash) + seed.charCodeAt(i); hash |= 0\<close>.
  The shift wraps to 32 bits; the subtraction and the addition are exact (all operands are
  far below \<open>2^53\<close>); the final \<open>|= 0\<close> wraps again.
\<close>

definition hash_step :: "int \<Rightarrow> code_unit \<Rightarrow> int" where
  "hash_step hash c = to_int32 ((to_int32 (hash * 2 ^ 5) - hash) + charCode c)"

definition seed_hash :: "jsstring \<Rightarrow> int" where
  "seed_hash seed = foldl hash_step 0 seed"

definition selectImageFromManifest ::
  "jsstring \<Rightarrow> jsstring list \<Rightarrow> jsstring \<Rightarrow> jsstring option" where
  "selectImageFromManifest category manifest seed =
     (if length manifest = 0 then None
      else
        let hash = seed_hash seed;
            index = nat (\<bar>hash\<bar> mod int (length manifest));
            filename = manifest ! index
        in Some (RAW_GITHUB_BASE @ js ''/'' @ category @ js ''/'' @ filename))"

text \<open>
  The scheme as the specification words it: \<open>hash = hash * 31 + charCode\<close>, wrapped to
  the signed 32-bit range after every character.
\<close>

definition spec_hash :: "jsstring \<Rightarrow> int" where
  "spec_hash seed = foldl (\<lambda>hash c. to_int32 (hash * 31 + charCode c)) 0 seed"

section \<open>Time of day\<close>

text \<open>
  Both resolvers start with \<open>timeStr.match(/(\d+):(\d+)\s*(AM|PM)/i)\<close>. Without the
  \<open>u\<close> flag, \<open>\d\<close> is an ASCII digit, \<open>\s\<close> is the WhiteSpace and LineTerminator code
  units of ECMAScript, and \<open>/i\<close> lets a letter of the pattern match its two ASCII cases.
\<close>

definition is_digit :: "code_unit \<Rightarrow> bool" where
  "is_digit c = (0x30 \<le> c \<and> c \<le> 0x39)"

definition is_space :: "code_unit \<Rightarrow> bool" where
  "is_space c =
     (c \<in> set [0x09, 0x0A, 0x0B, 0x0C, 0x0D, 0x20, 0xA0, 0x1680, 0x2028, 0x2029, 0x202F,
                0x205F, 0x3000, 0xFEFF]
      \<or> (0x2000 \<le> c \<and> c \<le> 0x200A))"

definition is_letter :: "char \<Rightarrow> code_unit \<Rightarrow> bool" where
  "is_letter u c = (c = of_char u \<or> c = of_char u + 0x20)"

datatype meridiem = AM | PM

text \<open>
  An attempt to match the pattern at the front of \<open>s\<close>. Each quantifier is greedy, and
  the piece after it cannot begin with a character the quantifier accepts (a colon,
  white space or a letter after digits; a letter after white space), so giving characters
  back never helps and the attempt is decided by the longest runs (\<open>match_here_iff\<close>
  below states this against \<open>pattern_at\<close>). The result is group 1 and group 3 in upper
  case.
\<close>

definition match_here :: "jsstring \<Rightarrow> (jsstring \<times> meridiem) option" where
  "match_here s =
     (let d1 = takeWhile is_digit s; r1 = dropWhile is_digit s in
      if d1 = [] then None
      else case r1 of
        [] \<Rightarrow> None
      | c # r2 \<Rightarrow>
          if c \<noteq> 0x3A then None
          else
            let d2 = takeWhile is_digit r2;
                r3 = dropWhile is_space (dropWhile is_digit r2)
            in if d2 = [] then None
               else case r3 of
                 a # m # _ \<Rightarrow>
                   if is_letter CHR ''A'' a \<and> is_letter CHR ''M'' m then Some (d1, AM)
                   else if is_letter CHR ''P'' a \<and> is_letter CHR ''M'' m then Some (d1, PM)
                   else None
               | _ \<Rightarrow> None)"

text \<open>
  The pattern read as a set of strings: \<open>s\<close> begins with digits \<open>d1\<close>, a colon, digits,
  white space, and AM or PM in either case.
\<close>

definition pattern_at :: "jsstring \<Rightarrow> jsstring \<Rightarrow> meridiem \<Rightarrow> bool" where
  "pattern_at s d1 ampm \<longleftrightarrow>
     (\<exists>d2 ws a m rest.
        s = d1 @ [0x3A] @ d2 @ ws @ [a, m] @ rest
        \<and> d1 \<noteq> [] \<and> list_all is_digit d1
        \<and> d2 \<noteq> [] \<and> list_all is_digit d2
        \<and> list_all is_space ws
        \<and> is_letter (case ampm of AM \<Rightarrow> CHR ''A'' | PM \<Rightarrow> CHR ''P'') a
        \<and> is_letter CHR ''M'' m)"

text \<open>\<open>String.prototype.match\<close> tries every start position from the left.\<close>

fun time_match :: "jsstring \<Rightarrow> (jsstring \<times> meridiem) option" where
  "time_match [] = None"
| "time_match (c # s) =
     (case match_here (c # s) of Some r \<Rightarrow> Some r | None \<Rightarrow> time_match s)"

text \<open>
  \<open>parseInt(match[1], 10)\<close> on a run of digits. JavaScript returns the nearest double;
  rounding is monotone and keeps the integers the code compares with (12, 23, 3, 6, 18)
  exact, so every comparison below has the outcome it has on the exact integer.
\<close>

definition parseInt :: "jsstring \<Rightarrow> nat" where
  "parseInt ds = foldl (\<lambda>n c. n * 10 + (unat c - 0x30)) 0 ds"

text \<open>
  The two adjustments
  \<open>if (ampm === 'PM' && hour < 12) hour += 12; if (ampm === 'AM' && hour === 12) hour = 0\<close>.
\<close>

definition to24 :: "nat \<Rightarrow> meridiem \<Rightarrow> nat" where
  "to24 hour ampm =
     (let hour = (if ampm = PM \<and> hour < 12 then hour + 12 else hour)
      in if ampm = AM \<and> hour = 12 then 0 else hour)"

text \<open>The hour both resolvers work with: 12 when the pattern does not match.\<close>

definition hour_of :: "jsstring \<Rightarrow> nat" where
  "hour_of timeStr =
     (case time_match timeStr of
        None \<Rightarrow> 12
      | Some (d, ampm) \<Rightarrow> to24 (parseInt d) ampm)"

text \<open>The chain of comparisons of \<open>getTimeOfDayBg\<close>: the locals \<open>bucket\<close> and \<open>color\<close>.\<close>

definition bucket_color :: "nat \<Rightarrow> jsstring \<times> jsstring" where
  "bucket_color hour =
     (if hour \<ge> 23 \<or> hour < 3 then (js ''Deep Night'', js ''#273657'')
      else if hour \<ge> 3 \<and> hour < 6 then (js ''Late Night'', js ''#4E72A0'')
      else if hour \<ge> 6 \<and> hour < 12 then (js ''Morning'', js ''#F7F9FF'')
      else if hour \<ge> 12 \<and> hour < 18 then (js ''Afternoon'', js ''#F2F4FF'')
      else (js ''Evening'', js ''#96A8C2''))"

text \<open>
  \<open>getTimeOfDayBg\<close> returns the colour. \<open>!timeStr\<close> holds for \<open>null\<close> and for the empty
  string. The optional parameter \<open>cityName\<close> is never read and is left out.
\<close>

definition getTimeOfDayBg :: "jsstring option \<Rightarrow> jsstring" where
  "getTimeOfDayBg timeStr =
     (case timeStr of
        None \<Rightarrow> js ''#F7F9FF''
      | Some s \<Rightarrow> if s = [] then js ''#F7F9FF'' else snd (bucket_color (hour_of s)))"

record contrast =
  main :: jsstring
  sub :: jsstring

definition getTextContrastClass :: "jsstring option \<Rightarrow> contrast" where
  "getTextContrastClass timeStr =
     (case timeStr of
        None \<Rightarrow> \<lparr>main = js ''text-zinc-950'', sub = js ''text-zinc-500''\<rparr>
      | Some s \<Rightarrow>
          if s = [] then \<lparr>main = js ''text-zinc-950'', sub = js ''text-zinc-500''\<rparr>
          else if hour_of s \<ge> 6 \<and> hour_of s < 18
            then \<lparr>main = js ''text-zinc-900'', sub = js ''text-zinc-500''\<rparr>
          else \<lparr>main = js ''text-white'', sub = js ''text-white/70''\<rparr>)"

section \<open>Network responses and errors\<close>

text \<open>
  What a call of \<open>fetch\<close> can end in: the promise rejects (a network error), or it
  resolves to a response with a status and a body, whose \<open>json()\<close> either rejects or
  yields a value. \<open>response.ok\<close> is the status being in 200..299.
\<close>

datatype 'a body = Unreadable | Json 'a

datatype 'a fetch_outcome = NetworkError | Response nat "'a body"

definition ok :: "nat \<Rightarrow> bool" where
  "ok st = (200 \<le> st \<and> st \<le> 299)"

text \<open>
  The exceptions of the service: \<open>ApiError st\<close> is
  \<open>new Error(`Weather API Error: ${response.status}`)\<close>, \<open>FetchFailed\<close> is
  \<open>new Error('Weather fetch failed')\<close>; the others are thrown by the runtime
  (\<open>fetch\<close> rejecting, \<open>json()\<close> rejecting, reading a property of \<open>undefined\<close>,
  \<open>Intl.DateTimeFormat\<close> refusing a time zone, \<open>encodeURIComponent\<close> refusing a lone
  surrogate).
\<close>

datatype js_error =
  ApiError nat | FetchFailed | FetchRejected | SyntaxError | TypeError | RangeError | URIError

text \<open>
  \<open>encodeURIComponent\<close> throws a \<open>URIError\<close> on a surrogate code unit that is not part of
  a pair.
\<close>

definition is_high :: "code_unit \<Rightarrow> bool" where
  "is_high c = (0xD800 \<le> c \<and> c \<le> 0xDBFF)"

definition is_low :: "code_unit \<Rightarrow> bool" where
  "is_low c = (0xDC00 \<le> c \<and> c \<le> 0xDFFF)"

fun well_formed :: "jsstring \<Rightarrow> bool" where
  "well_formed [] = True"
| "well_formed [c] = (\<not> is_high c \<and> \<not> is_low c)"
| "well_formed (c # d # cs) =
     (if is_high c then is_low d \<and> well_formed cs
      else \<not> is_low c \<and> well_formed (d # cs))"

section \<open>Weather fetch\<close>

text \<open>The table \<open>WMO_CODES\<close> of the constants module.\<close>

definition WMO_CODES :: "int \<rightharpoonup> jsstring" where
  "WMO_CODES = map_of
     [(0, js ''Clear sky''), (1, js ''Mainly clear''), (2, js ''Partly cloudy''),
      (3, js ''Overcast''), (45, js ''Fog''), (48, js ''Depositing rime fog''),
      (51, js ''Light drizzle''), (53, js ''Moderate drizzle''), (55, js ''Dense drizzle''),
      (61, js ''Slight rain''), (63, js ''Moderate rain''), (65, js ''Heavy rain''),
      (71, js ''Slight snow fall''), (73, js ''Moderate snow fall''),
      (75, js ''Heavy snow fall''), (77, js ''Snow grains''),
      (80, js ''Slight rain showers''), (81, js ''Moderate rain showers''),
      (82, js ''Violent rain showers''), (85, js ''Slight snow showers''),
      (86, js ''Heavy snow showers''), (95, js ''Thunderstorm'')]"

text \<open>
  The forecast body \<open>data\<close>: \<open>null\<close> (reading \<open>data.current\<close> then throws), or an object
  whose \<open>current\<close> may be missing (reading \<open>current.temperature_2m\<close> then throws).
\<close>

record current_weather =
  temperature_2m :: real
  weather_code :: int
  is_day :: int

datatype forecast = NullForecast | Forecast "current_weather option"

text \<open>
  One pass through the \<open>try\<close> block of \<open>fetchWeather\<close> in iteration \<open>i\<close>: it returns a
  snapshot, or reaches \<open>continue\<close> after waiting \<open>1500 * (i + 1)\<close> ms on a 429, or throws.
  \<open>net i\<close> is how the \<open>fetch\<close> of iteration \<open>i\<close> ends. \<open>fmt i\<close> stands for
  \<open>new Intl.DateTimeFormat('en-US', {timeZone, ...}).format(now)\<close> at that moment: the
  formatted local time, or nothing when the time zone is refused.
\<close>

datatype 'a attempt = Returned 'a | Continue nat | Thrown js_error

definition weather_attempt ::
  "(nat \<Rightarrow> jsstring \<Rightarrow> jsstring option) \<Rightarrow> (nat \<Rightarrow> forecast fetch_outcome) \<Rightarrow> City \<Rightarrow> nat
     \<Rightarrow> WeatherData attempt" where
  "weather_attempt fmt net city i =
     (case net i of
        NetworkError \<Rightarrow> Thrown FetchRejected
      | Response st b \<Rightarrow>
          if \<not> ok st then
            (if st = 429 then Continue (1500 * (i + 1)) else Thrown (ApiError st))
          else
            (case b of
               Unreadable \<Rightarrow> Thrown SyntaxError
             | Json NullForecast \<Rightarrow> Thrown TypeError
             | Json (Forecast current) \<Rightarrow>
                 (case fmt i (timezone city) of
                    None \<Rightarrow> Thrown RangeError
                  | Some lt \<Rightarrow>
                      (case current of
                         None \<Rightarrow> Thrown TypeError
                       | Some cur \<Rightarrow>
                           Returned
                             \<lparr>temperature = temperature_2m cur,
                              conditionCode = weather_code cur,
                              conditionText =
                                (case WMO_CODES (weather_code cur) of
                                   Some t \<Rightarrow> t
                                 | None \<Rightarrow> js ''Unknown''),
                              isDay = (is_day cur = 1),
                              localTime = lt\<rparr>))))"

text \<open>
  The effects of \<open>fetchWeather\<close> in order: each call of \<open>fetch\<close> and each \<open>wait(ms)\<close>.
\<close>

datatype effect = Fetch | Wait nat

definition after :: "effect list \<Rightarrow> effect list \<times> 'r \<Rightarrow> effect list \<times> 'r" where
  "after es r = (es @ fst r, snd r)"

text \<open>
  The loop \<open>for (let i = 0; i < retries; i++)\<close> from iteration \<open>i\<close> on. The
  \<open>catch\<close> rethrows in the last iteration and waits \<open>500 * 2^i\<close> ms otherwise; after the
  loop comes \<open>throw new Error('Weather fetch failed')\<close>.
\<close>

function fetchWeather_from ::
  "(nat \<Rightarrow> jsstring \<Rightarrow> jsstring option) \<Rightarrow> (nat \<Rightarrow> forecast fetch_outcome) \<Rightarrow> City \<Rightarrow> nat \<Rightarrow> nat
     \<Rightarrow> effect list \<times> (js_error + WeatherData)" where
  "fetchWeather_from fmt net city retries i =
     (if i < retries then
        (case weather_attempt fmt net city i of
           Returned w \<Rightarrow> ([Fetch], Inr w)
         | Continue ms \<Rightarrow>
             after [Fetch, Wait ms] (fetchWeather_from fmt net city retries (i + 1))
         | Thrown e \<Rightarrow>
             if i = retries - 1 then ([Fetch], Inl e)
             else after [Fetch, Wait (500 * 2 ^ i)]
                    (fetchWeather_from fmt net city retries (i + 1)))
      else ([], Inl FetchFailed))"
  by pat_completeness auto
termination
  by (relation "measure (\<lambda>(fmt, net, city, retries, i). retries - i)") auto

text \<open>
  \<open>fetchWeather(city, retries = 3)\<close>; every caller leaves \<open>retries\<close> at its default.
  Before the loop, and outside its \<open>try\<close>, the URL is built with
  \<open>encodeURIComponent(city.timezone || 'auto')\<close>, which throws on a lone surrogate: the
  call then fails at once, with no \<open>fetch\<close>. The text of the URL plays no other part.
\<close>

definition timezoneParam :: "City \<Rightarrow> jsstring" where
  "timezoneParam city = (if timezone city = [] then js ''auto'' else timezone city)"

definition fetchWeather ::
  "(nat \<Rightarrow> jsstring \<Rightarrow> jsstring option) \<Rightarrow> (nat \<Rightarrow> forecast fetch_outcome) \<Rightarrow> City \<Rightarrow> nat
     \<Rightarrow> effect list \<times> (js_error + WeatherData)" where
  "fetchWeather fmt net city retries =
     (if \<not> well_formed (timezoneParam city) then ([], Inl URIError)
      else fetchWeather_from fmt net city retries 0)"

section \<open>City search\<close>

text \<open>
  One entry of \<open>data.results\<close> of the geocoding response, with the fields the code reads;
  \<open>timezone\<close> may be missing. The identifier is a number there.
\<close>

record geo_result =
  result_id :: nat
  result_name :: jsstring
  result_country :: jsstring
  result_latitude :: real
  result_longitude :: real
  result_timezone :: "jsstring option"

text \<open>
  The parsed body \<open>data\<close>: \<open>null\<close> (reading \<open>data.results\<close> then throws), or an object
  whose \<open>results\<close> is missing or is a list.
\<close>

datatype geo_data = NullData | Data "geo_result list option"

text \<open>\<open>String(result.id)\<close> for a number below \<open>10^21\<close>: its decimal digits.\<close>

fun decimal :: "nat \<Rightarrow> jsstring" where
  "decimal n = (if n < 10 then [of_nat (48 + n)] else decimal (n div 10) @ [of_nat (48 + n mod 10)])"

text \<open>The object built for each result; \<open>result.timezone || 'UTC'\<close> also replaces \<open>''\<close>.\<close>

definition to_city :: "geo_result \<Rightarrow> City" where
  "to_city result =
     \<lparr>id_city = decimal (result_id result),
      name = result_name result,
      country = result_country result,
      lat = result_latitude result,
      lng = result_longitude result,
      timezone =
        (case result_timezone result of
           None \<Rightarrow> js ''UTC''
         | Some tz \<Rightarrow> if tz = [] then js ''UTC'' else tz)\<rparr>"

text \<open>
  The \<open>try\<close> block of \<open>searchCities\<close>: the result or the exception, with the number of
  calls of \<open>fetch\<close> made. \<open>net\<close> is how the one request ends.
\<close>

definition search_try :: "geo_data fetch_outcome \<Rightarrow> jsstring \<Rightarrow> (js_error + City list) \<times> nat" where
  "search_try net query =
     (if \<not> well_formed query then (Inl URIError, 0)
      else case net of
        NetworkError \<Rightarrow> (Inl FetchRejected, 1)
      | Response st b \<Rightarrow>
          if \<not> ok st then (Inr [], 1)
          else case b of
            Unreadable \<Rightarrow> (Inl SyntaxError, 1)
          | Json NullData \<Rightarrow> (Inl TypeError, 1)
          | Json (Data None) \<Rightarrow> (Inr [], 1)
          | Json (Data (Some results)) \<Rightarrow> (Inr (map to_city results), 1))"

text \<open>
  \<open>searchCities\<close>: the guard \<open>!query || query.length < 2\<close>, then the \<open>try\<close> block, whose
  every exception the \<open>catch\<close> turns into \<open>[]\<close>. \<open>Inl\<close> would be a rejected promise.
\<close>

definition searchCities :: "geo_data fetch_outcome \<Rightarrow> jsstring \<Rightarrow> (js_error + City list) \<times> nat" where
  "searchCities net query =
     (if query = [] \<or> length query < 2 then (Inr [], 0)
      else case search_try net query of
        (Inl e, calls) \<Rightarrow> (Inr [], calls)
      | (Inr found, calls) \<Rightarrow> (Inr found, calls))"

section \<open>The application component\<close>

datatype ViewStatus = Idle | Loading_weather | Complete | Error

record ViewState =
  status :: ViewStatus
  description :: "jsstring option"

text \<open>The state of \<open>App\<close> that the handlers below read and set.\<close>

record app_state =
  cities :: "City list"
  selectedCity :: "City option"
  weather :: "WeatherData option"
  isGridView :: bool
  weatherCache :: "jsstring \<rightharpoonup> WeatherData"
  cacheRef :: "jsstring \<rightharpoonup> WeatherData"
  viewState :: ViewState

text \<open>
  \<open>toLowerCase\<close> on the ASCII letters; the condition texts are entries of \<open>WMO_CODES\<close> or
  \<open>Unknown\<close>.
\<close>

definition toLowerCase :: "jsstring \<Rightarrow> jsstring" where
  "toLowerCase s = map (\<lambda>c. if 0x41 \<le> c \<and> c \<le> 0x5A then c + 0x20 else c) s"

definition scene_description :: "City \<Rightarrow> WeatherData \<Rightarrow> jsstring" where
  "scene_description city w =
     js ''A view of '' @ name city @ js '' in '' @ toLowerCase (conditionText w)
     @ js '' conditions.''"

text \<open>
  \<open>loadScene\<close> is a closure over the \<open>weatherCache\<close> of the render that created it
  (\<open>captured\<close>). It runs in two parts: up to \<open>await fetchWeather(city)\<close>, and from there on
  once the fetch has settled with \<open>r\<close>; other handlers may run in between, so the second
  part starts from whatever state it finds.
\<close>

definition loadScene_begin :: "(jsstring \<rightharpoonup> WeatherData) \<Rightarrow> City \<Rightarrow> app_state \<Rightarrow> app_state" where
  "loadScene_begin captured city s =
     (case captured (id_city city) of
        Some w \<Rightarrow>
          s\<lparr>weather := Some w,
            viewState := \<lparr>status = Complete, description = Some (scene_description city w)\<rparr>\<rparr>
      | None \<Rightarrow> s\<lparr>viewState := (viewState s)\<lparr>status := Loading_weather\<rparr>\<rparr>)"

definition loadScene_resume ::
  "(jsstring \<rightharpoonup> WeatherData) \<Rightarrow> City \<Rightarrow> js_error + WeatherData \<Rightarrow> app_state \<Rightarrow> app_state" where
  "loadScene_resume captured city r s =
     (case r of
        Inr weatherData \<Rightarrow>
          s\<lparr>weather := Some weatherData,
            weatherCache := (weatherCache s)(id_city city \<mapsto> weatherData),
            cacheRef := (cacheRef s)(id_city city \<mapsto> weatherData),
            viewState :=
              \<lparr>status = Complete, description = Some (scene_description city weatherData)\<rparr>\<rparr>
      | Inl e \<Rightarrow>
          (case captured (id_city city) of
             None \<Rightarrow> s\<lparr>viewState := (viewState s)\<lparr>status := Error\<rparr>, weather := None\<rparr>
           | Some w \<Rightarrow> s))"

text \<open>
  The prefetch effect, for a city that \<open>cacheRef.current\<close> did not hold when it started:
  what follows \<open>await fetchWeather(city)\<close>. A success is stored in \<open>cacheRef.current\<close>,
  which every later reader sees at once, and in \<open>weatherCache\<close>; a failure is only logged.
\<close>

definition prefetch_resume :: "City \<Rightarrow> js_error + WeatherData \<Rightarrow> app_state \<Rightarrow> app_state" where
  "prefetch_resume city r s =
     (case r of
        Inr data \<Rightarrow>
          s\<lparr>cacheRef := (cacheRef s)(id_city city \<mapsto> data),
            weatherCache := (weatherCache s)(id_city city \<mapsto> data)\<rparr>
      | Inl e \<Rightarrow> s)"

text \<open>A call of \<open>loadScene\<close> that nothing interrupts, in the render whose state is \<open>s\<close>.\<close>

definition loadScene :: "City \<Rightarrow> js_error + WeatherData \<Rightarrow> app_state \<Rightarrow> app_state" where
  "loadScene city r s =
     loadScene_resume (weatherCache s) city r (loadScene_begin (weatherCache s) city s)"

definition handleCityChange :: "City \<Rightarrow> app_state \<Rightarrow> app_state" where
  "handleCityChange city s =
     (let isNewCity =
            (case selectedCity s of None \<Rightarrow> True | Some sel \<Rightarrow> id_city city \<noteq> id_city sel);
          s1 = (if isNewCity
                then s\<lparr>weather := weatherCache s (id_city city), selectedCity := Some city\<rparr>
                else s)
      in if isGridView s then s1\<lparr>isGridView := False\<rparr> else s1)"

definition same_city :: "City \<Rightarrow> City \<Rightarrow> bool" where
  "same_city newCity c =
     (id_city c = id_city newCity \<or> (name c = name newCity \<and> country c = country newCity))"

definition handleAddCity :: "City \<Rightarrow> app_state \<Rightarrow> app_state" where
  "handleAddCity newCity s =
     (case find (same_city newCity) (cities s) of
        Some exists \<Rightarrow> handleCityChange exists s
      | None \<Rightarrow> handleCityChange newCity (s\<lparr>cities := cities s @ [newCity]\<rparr>))"

section \<open>Manifest cache\<close>

type_synonym FolderManifest = "jsstring list"

text \<open>
  The two module-level records \<open>manifestCache\<close> and \<open>pendingManifests\<close>, and what the
  model keeps of the world around them: the requests sent so far (request \<open>k\<close> asks for
  the manifest of category \<open>requests ! k\<close>, and the promise stored for it in
  \<open>pendingManifests\<close> is identified with \<open>k\<close>), the requests whose \<open>then\<close>/\<open>catch\<close> callback
  has run with the value it returned, the promises fulfilled so far with their value, and
  what each call of \<open>fetchFolderManifest\<close> answered.
\<close>

datatype answer = Cached FolderManifest | Pending nat

record manifest_state =
  manifestCache :: "jsstring \<rightharpoonup> FolderManifest"
  pendingManifests :: "jsstring \<rightharpoonup> nat"
  requests :: "jsstring list"
  handled :: "nat \<rightharpoonup> FolderManifest"
  resolved :: "nat \<rightharpoonup> FolderManifest"
  answers :: "(jsstring \<times> answer) list"

definition initial :: manifest_state where
  "initial =
     \<lparr>manifestCache = Map.empty, pendingManifests = Map.empty, requests = [],
      handled = Map.empty, resolved = Map.empty, answers = []\<rparr>"

text \<open>
  The body of \<open>fetchFolderManifest\<close>, which runs without interruption: the cached array
  (an array is truthy, also when empty), or the pending promise, or a new request whose
  promise is stored in \<open>pendingManifests\<close>.
\<close>

definition fetchFolderManifest :: "jsstring \<Rightarrow> manifest_state \<Rightarrow> answer \<times> manifest_state" where
  "fetchFolderManifest category s =
     (case manifestCache s category of
        Some m \<Rightarrow> (Cached m, s)
      | None \<Rightarrow>
          (case pendingManifests s category of
             Some k \<Rightarrow> (Pending k, s)
           | None \<Rightarrow>
               (Pending (length (requests s)),
                s\<lparr>requests := requests s @ [category],
                  pendingManifests := (pendingManifests s)(category \<mapsto> length (requests s))\<rparr>)))"

text \<open>
  The value of the \<open>then\<close>/\<open>catch\<close> pair: the parsed body of a success response;
  \<open>[]\<close> when \<open>fetch\<close> rejects, when the response is not ok (the callback throws), and
  when \<open>res.json()\<close> rejects.
\<close>

definition manifest_of :: "FolderManifest fetch_outcome \<Rightarrow> FolderManifest" where
  "manifest_of outcome =
     (case outcome of
        NetworkError \<Rightarrow> []
      | Response st b \<Rightarrow>
          if \<not> ok st then []
          else case b of Unreadable \<Rightarrow> [] | Json data \<Rightarrow> data)"

text \<open>
  The callbacks of request \<open>k\<close>. Both \<open>then\<close> and \<open>catch\<close> store their value in
  \<open>manifestCache\<close>; \<open>finally\<close> runs later, deletes the entry of \<open>pendingManifests\<close> and
  lets the promise resolve.
\<close>

definition on_settled :: "nat \<Rightarrow> FolderManifest fetch_outcome \<Rightarrow> manifest_state \<Rightarrow> manifest_state" where
  "on_settled k outcome s =
     s\<lparr>manifestCache := (manifestCache s)(requests s ! k \<mapsto> manifest_of outcome),
       handled := (handled s)(k \<mapsto> manifest_of outcome)\<rparr>"

definition on_finally :: "nat \<Rightarrow> manifest_state \<Rightarrow> manifest_state" where
  "on_finally k s =
     s\<lparr>pendingManifests := (pendingManifests s)(requests s ! k := None),
       resolved := (resolved s)(k := handled s k)\<rparr>"

text \<open>
  JavaScript runs one callback at a time, so a run of the module is a sequence of events:
  a call of \<open>fetchFolderManifest\<close>, the settling of a request that is still out (its
  \<open>then\<close> or \<open>catch\<close> callback runs), and the \<open>finally\<close> callback of a request whose
  callback has run. An event that cannot happen in a state has no successor.
\<close>

datatype event = Calls jsstring | Settles nat "FolderManifest fetch_outcome" | Finishes nat

definition step :: "event \<Rightarrow> manifest_state \<Rightarrow> manifest_state option" where
  "step ev s =
     (case ev of
        Calls category \<Rightarrow>
          (case fetchFolderManifest category s of
             (a, s') \<Rightarrow> Some (s'\<lparr>answers := answers s' @ [(category, a)]\<rparr>))
      | Settles k outcome \<Rightarrow>
          if k < length (requests s) \<and> handled s k = None then Some (on_settled k outcome s)
          else None
      | Finishes k \<Rightarrow>
          if handled s k \<noteq> None \<and> resolved s k = None then Some (on_finally k s)
          else None)"

fun run :: "event list \<Rightarrow> manifest_state \<Rightarrow> manifest_state option" where
  "run [] s = Some s"
| "run (ev # evs) s = (case step ev s of None \<Rightarrow> None | Some s' \<Rightarrow> run evs s')"

text \<open>
  What holds in every state of a run: a request whose callback has run has left an entry
  in the cache, a request still out has no cache entry and is the pending promise of its
  category, a fulfilled promise carries the value its callback returned, and no category
  was requested twice.
\<close>

definition inv :: "manifest_state \<Rightarrow> bool" where
  "inv s \<longleftrightarrow>
     (\<forall>k. handled s k \<noteq> None \<longrightarrow>
        k < length (requests s) \<and> manifestCache s (requests s ! k) \<noteq> None)
     \<and> (\<forall>k < length (requests s). handled s k = None \<longrightarrow>
          manifestCache s (requests s ! k) = None
          \<and> pendingManifests s (requests s ! k) = Some k)
     \<and> (\<forall>k. resolved s k \<noteq> None \<longrightarrow> resolved s k = handled s k)
     \<and> distinct (requests s)"

section \<open>Theorems\<close>

subsection \<open>Image selection\<close>

lemma to_int32_mod: "to_int32 x mod 2 ^ 32 = x mod 2 ^ 32"
proof -
  have "((x + 2 ^ 31) mod 2 ^ 32 - 2 ^ 31) mod 2 ^ 32 = (x + 2 ^ 31 - 2 ^ 31) mod 2 ^ 32"
    by (rule mod_diff_cong) simp_all
  then show ?thesis by (simp add: to_int32_def)
qed

lemma to_int32_eqI: "x mod 2 ^ 32 = y mod 2 ^ 32 \<Longrightarrow> to_int32 x = to_int32 y"
proof -
  assume "x mod 2 ^ 32 = y mod 2 ^ 32"
  then have "(x + 2 ^ 31) mod 2 ^ 32 = (y + 2 ^ 31) mod 2 ^ 32"
    by (rule mod_add_cong) simp
  then show ?thesis by (simp only: to_int32_def)
qed

lemma hash_step_spec: "hash_step h c = to_int32 (h * 31 + charCode c)"
proof -
  have "(to_int32 (h * 2 ^ 5) - h + charCode c) mod 2 ^ 32
        = (h * 2 ^ 5 - h + charCode c) mod 2 ^ 32"
    by (intro mod_add_cong mod_diff_cong to_int32_mod refl)
  moreover have "h * 2 ^ 5 - h + charCode c = h * 31 + charCode c"
    by simp
  ultimately have "(to_int32 (h * 2 ^ 5) - h + charCode c) mod 2 ^ 32
        = (h * 31 + charCode c) mod 2 ^ 32"
    by (simp only:)
  then show ?thesis unfolding hash_step_def by (rule to_int32_eqI)
qed

lemma seed_hash_spec: "seed_hash seed = spec_hash seed"
proof -
  have "hash_step = (\<lambda>hash c. to_int32 (hash * 31 + charCode c))"
    by (intro ext) (rule hash_step_spec)
  then show ?thesis unfolding seed_hash_def spec_hash_def by (rule arg_cong)
qed

text \<open>
  C2. For a non-empty manifest, \<open>selectImageFromManifest\<close> returns the URL
  \<open>RAW_GITHUB_BASE/category/filename\<close> of the file at index \<open>|hash| mod length\<close>, where
  \<open>hash\<close> is the fold of \<open>hash * 31 + charCode\<close> over the seed, wrapped to signed 32 bits
  at every character; the index is inside the manifest. The result is a function of
  (category, manifest, seed) alone, so equal inputs give equal URLs.
\<close>

theorem selectImageFromManifest_index:
  "manifest \<noteq> [] \<Longrightarrow>
     nat (\<bar>spec_hash seed\<bar> mod int (length manifest)) < length manifest
     \<and> selectImageFromManifest category manifest seed =
         Some (RAW_GITHUB_BASE @ js ''/'' @ category @ js ''/''
               @ manifest ! nat (\<bar>spec_hash seed\<bar> mod int (length manifest)))"
proof -
  assume ne: "manifest \<noteq> []"
  then have pos: "0 < int (length manifest)"
    by simp
  have "\<bar>spec_hash seed\<bar> mod int (length manifest) < int (length manifest)"
    using pos by (rule pos_mod_bound)
  moreover have "0 \<le> \<bar>spec_hash seed\<bar> mod int (length manifest)"
    using pos by (rule pos_mod_sign)
  ultimately have "nat (\<bar>spec_hash seed\<bar> mod int (length manifest)) < length manifest"
    by linarith
  moreover have "selectImageFromManifest category manifest seed =
         Some (RAW_GITHUB_BASE @ js ''/'' @ category @ js ''/''
               @ manifest ! nat (\<bar>spec_hash seed\<bar> mod int (length manifest)))"
    using ne by (simp add: selectImageFromManifest_def seed_hash_spec Let_def)
  ultimately show ?thesis
    by (rule conjI)
qed

theorem selectImageFromManifest_index_witness:
  "selectImageFromManifest (js ''snow-night'')
     [js ''a.png'', js ''b.png'', js ''c.png'', js ''d.png''] (js ''copenhagen'')
   = Some (RAW_GITHUB_BASE @ js ''/snow-night/c.png'')
   \<and> spec_hash (js ''copenhagen'') = - 720885078"
proof -
  have h: "spec_hash (js ''copenhagen'') = - 720885078"
    by (simp add: spec_hash_def js_def charCode_def to_int32_def)
  have ne: "[js ''a.png'', js ''b.png'', js ''c.png'', js ''d.png''] \<noteq> []"
    by simp
  have "selectImageFromManifest (js ''snow-night'')
          [js ''a.png'', js ''b.png'', js ''c.png'', js ''d.png''] (js ''copenhagen'')
        = Some (RAW_GITHUB_BASE @ js ''/'' @ js ''snow-night'' @ js ''/'' @ js ''c.png'')"
    using selectImageFromManifest_index [OF ne, of "js ''copenhagen''" "js ''snow-night''"]
    by (simp add: h)
  then show ?thesis
    using h by (simp add: js_def)
qed

subsection \<open>Weather category\<close>

text \<open>
  C7. For every snapshot, \<open>getWeatherCategory\<close> returns the condition class joined by a
  dash to \<open>day\<close> or \<open>night\<close>; the class is \<open>snow\<close> exactly for the codes 71, 73, 75, 77,
  85, 86, \<open>rain\<close> exactly for 51, 53, 55, 56, 57, 61, 63, 65, 66, 67, 80, 81, 82, 95,
  96, 99, and \<open>clear\<close> for every other code. Code 71 at night gives \<open>snow-night\<close>.
\<close>

theorem getWeatherCategory_classes:
  "getWeatherCategory (Some w) =
     Some ((if conditionCode w \<in> {71, 73, 75, 77, 85, 86} then js ''snow''
            else if conditionCode w \<in>
                      {51, 53, 55, 56, 57, 61, 63, 65, 66, 67, 80, 81, 82, 95, 96, 99}
              then js ''rain''
            else js ''clear'')
           @ js ''-'' @ (if isDay w then js ''day'' else js ''night''))
   \<and> getWeatherCategory
        (Some \<lparr>temperature = t, conditionCode = 71, conditionText = txt, isDay = False,
               localTime = lt\<rparr>) = Some (js ''snow-night'')"
proof (rule conjI)
  show "getWeatherCategory (Some w) =
     Some ((if conditionCode w \<in> {71, 73, 75, 77, 85, 86} then js ''snow''
            else if conditionCode w \<in>
                      {51, 53, 55, 56, 57, 61, 63, 65, 66, 67, 80, 81, 82, 95, 96, 99}
              then js ''rain''
            else js ''clear'')
           @ js ''-'' @ (if isDay w then js ''day'' else js ''night''))"
    by (simp add: getWeatherCategory_def condition_class_def)
  show "getWeatherCategory
        (Some \<lparr>temperature = t, conditionCode = 71, conditionText = txt, isDay = False,
               localTime = lt\<rparr>) = Some (js ''snow-night'')"
    by (simp add: getWeatherCategory_def condition_class_def js_def)
qed

theorem getWeatherCategory_classes_witness:
  "getWeatherCategory
     (Some \<lparr>temperature = - 3, conditionCode = 95, conditionText = js ''Thunderstorm'',
            isDay = True, localTime = js ''02:15 PM''\<rparr>) = Some (js ''rain-day'')"
  using getWeatherCategory_classes
    [of "\<lparr>temperature = - 3, conditionCode = 95, conditionText = js ''Thunderstorm'',
            isDay = True, localTime = js ''02:15 PM''\<rparr>"]
  by (simp add: js_def)

subsection \<open>Time of day\<close>

text \<open>
  The matcher agrees with the pattern read as a set of strings: an attempt at the front
  of \<open>s\<close> succeeds with group 1 \<open>d1\<close> and meridiem \<open>ampm\<close> exactly when \<open>s\<close> begins with
  a string of the pattern having these groups, \<open>time_match\<close> fails exactly when no suffix
  of the string does, and a success is the match at the leftmost position.
\<close>

lemma space_not_digit: "is_space c \<Longrightarrow> \<not> is_digit c"
proof -
  have "\<not> (0x2000 \<le> c \<and> c \<le> 0x39)"
  proof
    assume "0x2000 \<le> c \<and> c \<le> 0x39"
    then have "(0x2000 :: code_unit) \<le> 0x39"
      by (elim conjE) (rule order_trans)
    then show False
      by simp
  qed
  then show "is_space c \<Longrightarrow> \<not> is_digit c"
    by (auto simp: is_space_def is_digit_def)
qed

lemma letter_not_digit: "is_letter CHR ''A'' c \<or> is_letter CHR ''P'' c \<Longrightarrow> \<not> is_digit c"
  by (auto simp: is_letter_def is_digit_def)

lemma letter_not_space: "is_letter CHR ''A'' c \<or> is_letter CHR ''P'' c \<Longrightarrow> \<not> is_space c"
  by (auto simp: is_letter_def is_space_def)

lemma colon_not_digit: "\<not> is_digit 0x3A"
  by (simp add: is_digit_def)

lemma letters_apart: "\<not> (is_letter CHR ''A'' c \<and> is_letter CHR ''P'' c)"
  by (auto simp: is_letter_def)

lemma span_run:
  "list_all P xs \<Longrightarrow> (ys = [] \<or> \<not> P (hd ys)) \<Longrightarrow>
   takeWhile P (xs @ ys) = xs \<and> dropWhile P (xs @ ys) = ys"
proof (cases ys)
  case Nil
  assume "list_all P xs"
  then show ?thesis
    using Nil by (induction xs) simp_all
next
  case (Cons y ys')
  assume "list_all P xs" and "ys = [] \<or> \<not> P (hd ys)"
  then show ?thesis
    using Cons by (induction xs) simp_all
qed

lemma pattern_at_match:
  assumes "pattern_at s d1 ampm"
  shows "match_here s = Some (d1, ampm)"
proof -
  obtain d2 ws a m rest where s: "s = d1 @ [0x3A] @ d2 @ ws @ [a, m] @ rest"
    and d1: "d1 \<noteq> []" "list_all is_digit d1"
    and d2: "d2 \<noteq> []" "list_all is_digit d2"
    and ws: "list_all is_space ws"
    and a: "is_letter (case ampm of AM \<Rightarrow> CHR ''A'' | PM \<Rightarrow> CHR ''P'') a"
    and m: "is_letter CHR ''M'' m"
    using assms unfolding pattern_at_def by blast
  have ap: "is_letter CHR ''A'' a \<or> is_letter CHR ''P'' a"
    using a by (cases ampm) simp_all
  have t1: "takeWhile is_digit s = d1 \<and> dropWhile is_digit s = 0x3A # d2 @ ws @ [a, m] @ rest"
    unfolding s using span_run [OF d1(2), of "[0x3A] @ d2 @ ws @ [a, m] @ rest"] colon_not_digit
    by simp
  have "\<not> is_digit (hd (ws @ [a, m] @ rest))"
    using ws ap by (cases ws) (simp_all add: space_not_digit letter_not_digit)
  then have t2: "takeWhile is_digit (d2 @ ws @ [a, m] @ rest) = d2
      \<and> dropWhile is_digit (d2 @ ws @ [a, m] @ rest) = ws @ [a, m] @ rest"
    using span_run [OF d2(2), of "ws @ [a, m] @ rest"] by simp
  have t3: "dropWhile is_space (ws @ [a, m] @ rest) = a # m # rest"
    using span_run [OF ws, of "[a, m] @ rest"] ap by (simp add: letter_not_space)
  show ?thesis
  proof (cases ampm)
    case AM
    then show ?thesis
      using t1 t2 t3 d1(1) d2(1) a m by (simp add: match_here_def)
  next
    case PM
    then have "\<not> is_letter CHR ''A'' a"
      using a letters_apart by auto
    then show ?thesis
      using PM t1 t2 t3 d1(1) d2(1) a m by (simp add: match_here_def)
  qed
qed

lemma match_pattern_at:
  assumes "match_here s = Some (d1, ampm)"
  shows "pattern_at s d1 ampm"
proof -
  let ?r1 = "dropWhile is_digit s"
  have d1: "d1 = takeWhile is_digit s" "d1 \<noteq> []"
    using assms by (auto simp: match_here_def Let_def split: if_splits list.splits)
  obtain r2 where r1: "?r1 = 0x3A # r2"
    using assms by (auto simp: match_here_def Let_def split: if_splits list.splits)
  let ?d2 = "takeWhile is_digit r2"
  let ?ws = "takeWhile is_space (dropWhile is_digit r2)"
  have d2: "?d2 \<noteq> []"
    using assms r1 by (auto simp: match_here_def Let_def split: if_splits list.splits)
  obtain a m rest where r3: "dropWhile is_space (dropWhile is_digit r2) = a # m # rest"
    and am: "is_letter (case ampm of AM \<Rightarrow> CHR ''A'' | PM \<Rightarrow> CHR ''P'') a" "is_letter CHR ''M'' m"
    using assms r1 by (auto simp: match_here_def Let_def split: if_splits list.splits)
  have "s = d1 @ ?r1"
    using d1(1) by simp
  also have "?r1 = [0x3A] @ ?d2 @ dropWhile is_digit r2"
    using r1 by simp
  also have "dropWhile is_digit r2 = ?ws @ [a, m] @ rest"
    using r3 by (metis append_Cons append_Nil takeWhile_dropWhile_id)
  finally have "s = d1 @ [0x3A] @ ?d2 @ ?ws @ [a, m] @ rest" .
  moreover have "list_all is_digit d1" "list_all is_digit ?d2" "list_all is_space ?ws"
    unfolding d1(1) by (auto simp: list_all_iff dest: set_takeWhileD)
  ultimately show ?thesis
    unfolding pattern_at_def using d1(2) d2 am by blast
qed

lemma match_here_iff: "match_here s = Some (d1, ampm) \<longleftrightarrow> pattern_at s d1 ampm"
  using pattern_at_match match_pattern_at by blast

lemma time_match_None_iff:
  "time_match s = None \<longleftrightarrow> (\<forall>pre post d ampm. s = pre @ post \<longrightarrow> \<not> pattern_at post d ampm)"
proof (induction s)
  case Nil
  have "\<not> pattern_at [] d ampm" for d ampm
    by (simp add: pattern_at_def)
  then show ?case by simp
next
  case (Cons c s)
  have split: "(\<forall>pre post d ampm. c # s = pre @ post \<longrightarrow> \<not> pattern_at post d ampm)
     \<longleftrightarrow> (\<forall>d ampm. \<not> pattern_at (c # s) d ampm)
         \<and> (\<forall>pre post d ampm. s = pre @ post \<longrightarrow> \<not> pattern_at post d ampm)"
    by (auto simp: Cons_eq_append_conv)
  show ?case
  proof (cases "match_here (c # s)")
    case None
    then have "\<forall>d ampm. \<not> pattern_at (c # s) d ampm"
      by (simp add: match_here_iff [symmetric])
    then show ?thesis
      unfolding split using None Cons.IH by simp
  next
    case (Some r)
    then have "pattern_at ([] @ c # s) (fst r) (snd r)"
      by (simp add: match_here_iff [symmetric])
    then have "\<not> (\<forall>pre post d ampm. c # s = pre @ post \<longrightarrow> \<not> pattern_at post d ampm)"
      by (metis append_Nil)
    then show ?thesis
      using Some by simp
  qed
qed

lemma time_match_Some:
  "time_match s = Some (d, ampm) \<Longrightarrow> \<exists>pre post. s = pre @ post \<and> pattern_at post d ampm
     \<and> time_match pre = None"
proof (induction s)
  case Nil
  then show ?case by simp
next
  case (Cons c s)
  show ?case
  proof (cases "match_here (c # s)")
    case (Some r)
    then have "pattern_at (c # s) d ampm"
      using Cons.prems by (simp add: match_here_iff)
    then have "c # s = [] @ (c # s) \<and> pattern_at (c # s) d ampm \<and> time_match [] = None"
      by simp
    then show ?thesis
      by blast
  next
    case None
    then have "time_match s = Some (d, ampm)"
      using Cons.prems by simp
    then obtain pre post where p: "s = pre @ post" "pattern_at post d ampm" "time_match pre = None"
      using Cons.IH by blast
    have "\<forall>pre' post' d' a'. c # pre = pre' @ post' \<longrightarrow> \<not> pattern_at post' d' a'"
    proof (intro allI impI)
      fix pre' post' d' a' assume e: "c # pre = pre' @ post'"
      show "\<not> pattern_at post' d' a'"
      proof (cases pre')
        case Nil
        show ?thesis
        proof
          assume "pattern_at post' d' a'"
          then have "pattern_at (c # pre) d' a'" using e Nil by simp
          then have "pattern_at (c # s) d' a'"
            unfolding pattern_at_def p(1) by (metis append.assoc append_Cons)
          then show False using None by (simp add: match_here_iff [symmetric])
        qed
      next
        case (Cons x xs)
        then have "pre = xs @ post'" using e by simp
        then show ?thesis using p(3) by (simp add: time_match_None_iff)
      qed
    qed
    then have "time_match (c # pre) = None"
      by (simp only: time_match_None_iff)
    then have "c # s = (c # pre) @ post \<and> pattern_at post d ampm \<and> time_match (c # pre) = None"
      using p(1,2) by simp
    then show ?thesis
      by blast
  qed
qed


lemma time_match_nonempty: "time_match s = Some r \<Longrightarrow> s \<noteq> []"
  by (cases s) simp_all

lemma hour_of_match: "time_match s = Some (d, ampm) \<Longrightarrow> hour_of s = to24 (parseInt d) ampm"
  by (simp add: hour_of_def)

lemma hour_of_no_match: "time_match s = None \<Longrightarrow> hour_of s = 12"
  by (simp add: hour_of_def)

lemma getTimeOfDayBg_nonempty: "s \<noteq> [] \<Longrightarrow> getTimeOfDayBg (Some s) = snd (bucket_color (hour_of s))"
  by (simp add: getTimeOfDayBg_def)

text \<open>
  C6. When the pattern matches with hour digits \<open>d\<close> and meridiem \<open>ampm\<close>, the hour is
  \<open>H = to24 (parseInt d) ampm\<close>, where 12 AM becomes 0, 12 PM stays 12, a PM hour below 12
  gains 12 and every other hour is kept. For \<open>H\<close> on the 24-hour clock the bucket and the
  tint follow the half-open intervals: \<open>[23,24) \<union> [0,3)\<close> Deep Night, \<open>[3,6)\<close> Late
  Night, \<open>[6,12)\<close> Morning, \<open>[12,18)\<close> Afternoon, \<open>[18,23)\<close> Evening, and
  \<open>getTimeOfDayBg\<close> returns the tint. Hours 23 and 2 are Deep Night, 5 Late Night,
  11 Morning, 17 Afternoon, 22 Evening.
\<close>

theorem getTimeOfDayBg_buckets:
  assumes "time_match s = Some (d, ampm)" and "H = to24 (parseInt d) ampm" and "H < 24"
  shows "hour_of s = H
    \<and> getTimeOfDayBg (Some s) = snd (bucket_color H)
    \<and> (H \<in> {23..<24} \<union> {0..<3} \<longrightarrow> bucket_color H = (js ''Deep Night'', js ''#273657''))
    \<and> (H \<in> {3..<6} \<longrightarrow> bucket_color H = (js ''Late Night'', js ''#4E72A0''))
    \<and> (H \<in> {6..<12} \<longrightarrow> bucket_color H = (js ''Morning'', js ''#F7F9FF''))
    \<and> (H \<in> {12..<18} \<longrightarrow> bucket_color H = (js ''Afternoon'', js ''#F2F4FF''))
    \<and> (H \<in> {18..<23} \<longrightarrow> bucket_color H = (js ''Evening'', js ''#96A8C2''))
    \<and> to24 12 AM = 0 \<and> to24 12 PM = 12
    \<and> (h < 12 \<longrightarrow> to24 h PM = h + 12 \<and> to24 h AM = h)
    \<and> (12 < h \<longrightarrow> to24 h PM = h \<and> to24 h AM = h)
    \<and> map (\<lambda>x. fst (bucket_color x)) [23, 2, 5, 11, 17, 22] =
        [js ''Deep Night'', js ''Deep Night'', js ''Late Night'', js ''Morning'',
         js ''Afternoon'', js ''Evening'']"
proof -
  have hour: "hour_of s = H"
    using assms(1,2) by (simp add: hour_of_match)
  have "s \<noteq> []"
    using assms(1) by (rule time_match_nonempty)
  then have bg: "getTimeOfDayBg (Some s) = snd (bucket_color H)"
    using hour by (simp add: getTimeOfDayBg_nonempty)
  have b1: "H \<in> {23..<24} \<union> {0..<3} \<longrightarrow> bucket_color H = (js ''Deep Night'', js ''#273657'')"
    by (simp add: bucket_color_def)
  have b2: "H \<in> {3..<6} \<longrightarrow> bucket_color H = (js ''Late Night'', js ''#4E72A0'')"
    by (simp add: bucket_color_def)
  have b3: "H \<in> {6..<12} \<longrightarrow> bucket_color H = (js ''Morning'', js ''#F7F9FF'')"
    by (simp add: bucket_color_def)
  have b4: "H \<in> {12..<18} \<longrightarrow> bucket_color H = (js ''Afternoon'', js ''#F2F4FF'')"
    by (simp add: bucket_color_def)
  have b5: "H \<in> {18..<23} \<longrightarrow> bucket_color H = (js ''Evening'', js ''#96A8C2'')"
    by (simp add: bucket_color_def)
  have m1: "to24 12 AM = 0 \<and> to24 12 PM = 12"
    by (simp add: to24_def)
  have m2: "h < 12 \<longrightarrow> to24 h PM = h + 12 \<and> to24 h AM = h"
    by (simp add: to24_def)
  have m3: "12 < h \<longrightarrow> to24 h PM = h \<and> to24 h AM = h"
    by (simp add: to24_def)
  have ex: "map (\<lambda>x. fst (bucket_color x)) [23, 2, 5, 11, 17, 22] =
        [js ''Deep Night'', js ''Deep Night'', js ''Late Night'', js ''Morning'',
         js ''Afternoon'', js ''Evening'']"
    by (simp add: bucket_color_def)
  show ?thesis
    using hour bg b1 b2 b3 b4 b5 m1 m2 m3 ex by blast
qed

theorem getTimeOfDayBg_buckets_witness:
  "time_match (js ''11:30'' @ [0x202F] @ js ''PM'') = Some (js ''11'', PM)
   \<and> to24 (parseInt (js ''11'')) PM = 23
   \<and> hour_of (js ''11:30'' @ [0x202F] @ js ''PM'') = 23
   \<and> getTimeOfDayBg (Some (js ''11:30'' @ [0x202F] @ js ''PM'')) = js ''#273657''"
proof -
  have m: "time_match (js ''11:30'' @ [0x202F] @ js ''PM'') = Some (js ''11'', PM)"
    by (simp add: js_def match_here_def is_digit_def is_space_def is_letter_def)
  have h: "23 = to24 (parseInt (js ''11'')) PM"
    by (simp add: js_def parseInt_def to24_def)
  have b: "(23::nat) < 24"
    by simp
  have c: "snd (bucket_color 23) = js ''#273657''"
    by (simp add: bucket_color_def)
  show ?thesis
    using getTimeOfDayBg_buckets [OF m h b] m h c by simp
qed

text \<open>
  C8, as the code has it. For \<open>null\<close> and for the empty string \<open>getTimeOfDayBg\<close> returns
  \<open>#F7F9FF\<close> and \<open>getTextContrastClass\<close> returns the dark pair \<open>text-zinc-950\<close>,
  \<open>text-zinc-500\<close>. For a non-empty string that the pattern does not match the hour
  defaults to 12: \<open>getTimeOfDayBg\<close> returns the Afternoon tint \<open>#F2F4FF\<close> and
  \<open>getTextContrastClass\<close> the dark pair \<open>text-zinc-900\<close>, \<open>text-zinc-500\<close>. Both
  functions are total: no input makes them throw.
\<close>

theorem time_fallback:
  "getTimeOfDayBg None = js ''#F7F9FF'' \<and> getTimeOfDayBg (Some []) = js ''#F7F9FF''
   \<and> getTextContrastClass None = \<lparr>main = js ''text-zinc-950'', sub = js ''text-zinc-500''\<rparr>
   \<and> getTextContrastClass (Some []) =
       \<lparr>main = js ''text-zinc-950'', sub = js ''text-zinc-500''\<rparr>
   \<and> (s \<noteq> [] \<and> time_match s = None \<longrightarrow>
        getTimeOfDayBg (Some s) = js ''#F2F4FF''
        \<and> getTextContrastClass (Some s) =
            \<lparr>main = js ''text-zinc-900'', sub = js ''text-zinc-500''\<rparr>)"
proof -
  have a: "getTimeOfDayBg None = js ''#F7F9FF'' \<and> getTimeOfDayBg (Some []) = js ''#F7F9FF''"
    by (simp add: getTimeOfDayBg_def)
  have b: "getTextContrastClass None = \<lparr>main = js ''text-zinc-950'', sub = js ''text-zinc-500''\<rparr>
    \<and> getTextContrastClass (Some []) = \<lparr>main = js ''text-zinc-950'', sub = js ''text-zinc-500''\<rparr>"
    by (simp add: getTextContrastClass_def)
  have c: "getTimeOfDayBg (Some s) = js ''#F2F4FF''
        \<and> getTextContrastClass (Some s) =
            \<lparr>main = js ''text-zinc-900'', sub = js ''text-zinc-500''\<rparr>"
    if "s \<noteq> []" and "time_match s = None"
    using that
    by (simp add: getTimeOfDayBg_def getTextContrastClass_def hour_of_no_match bucket_color_def)
  show ?thesis
    using a b c by blast
qed

theorem time_fallback_witness:
  "js ''--:--'' \<noteq> [] \<and> time_match (js ''--:--'') = None
   \<and> getTimeOfDayBg (Some (js ''--:--'')) = js ''#F2F4FF''
   \<and> getTextContrastClass (Some (js ''--:--'')) =
       \<lparr>main = js ''text-zinc-900'', sub = js ''text-zinc-500''\<rparr>"
proof -
  have m: "js ''--:--'' \<noteq> [] \<and> time_match (js ''--:--'') = None"
    by (simp add: js_def match_here_def is_digit_def)
  show ?thesis
    using time_fallback [of "js ''--:--''"] m by blast
qed

text \<open>
  The claim as worded, one default for absent and for unparseable input, fails: \<open>--:--\<close>
  does not parse, and each resolver answers it differently from \<open>null\<close>.
\<close>

theorem time_fallback_counterexample:
  "time_match (js ''--:--'') = None
   \<and> getTimeOfDayBg (Some (js ''--:--'')) \<noteq> getTimeOfDayBg None
   \<and> getTextContrastClass (Some (js ''--:--'')) \<noteq> getTextContrastClass None"
  by (simp add: getTimeOfDayBg_def getTextContrastClass_def hour_of_def bucket_color_def
      js_def match_here_def is_digit_def)

subsection \<open>Weather fetch\<close>

lemma all_less_3: "(\<forall>i<3. P i) \<longleftrightarrow> P (0::nat) \<and> P 1 \<and> P 2"
proof -
  have "\<And>i::nat. i < 3 \<longleftrightarrow> i = 0 \<or> i = 1 \<or> i = 2"
    by arith
  then show ?thesis
    by auto
qed

lemma weather_attempt_429:
  "net i = Response 429 b \<Longrightarrow> weather_attempt fmt net city i = Continue (1500 * (i + 1))"
  by (simp add: weather_attempt_def ok_def)

lemma weather_attempt_network:
  "net i = NetworkError \<Longrightarrow> weather_attempt fmt net city i = Thrown FetchRejected"
  by (simp add: weather_attempt_def)

lemma weather_attempt_status:
  "net i = Response st b \<Longrightarrow> \<not> ok st \<Longrightarrow> st \<noteq> 429
     \<Longrightarrow> weather_attempt fmt net city i = Thrown (ApiError st)"
  by (simp add: weather_attempt_def)

declare fetchWeather_from.simps [simp del]

lemma after_after: "after a (after b r) = after (a @ b) r"
  by (simp add: after_def)

lemma fetchWeather_from_step:
  "i < retries \<Longrightarrow>
   fetchWeather_from fmt net city retries i =
     (case weather_attempt fmt net city i of
        Returned w \<Rightarrow> ([Fetch], Inr w)
      | Continue ms \<Rightarrow> after [Fetch, Wait ms] (fetchWeather_from fmt net city retries (Suc i))
      | Thrown e \<Rightarrow>
          if Suc i = retries then ([Fetch], Inl e)
          else after [Fetch, Wait (500 * 2 ^ i)]
                 (fetchWeather_from fmt net city retries (Suc i)))"
  by (subst fetchWeather_from.simps) (auto split: attempt.split)

lemma fetchWeather_from_end:
  "retries \<le> i \<Longrightarrow> fetchWeather_from fmt net city retries i = ([], Inl FetchFailed)"
  by (subst fetchWeather_from.simps) simp

lemma fetch_count:
  "length (filter (\<lambda>e. e = Fetch) (fst (fetchWeather_from fmt net city retries i))) \<le> retries - i"
proof (induction "retries - i" arbitrary: i)
  case 0
  then show ?case by (simp add: fetchWeather_from_end)
next
  case (Suc k)
  then have lt: "i < retries" and k: "k = retries - Suc i"
    by simp_all
  have ih: "length (filter (\<lambda>e. e = Fetch) (fst (fetchWeather_from fmt net city retries (Suc i))))
      \<le> retries - Suc i"
    using Suc.hyps(1) [OF k] .
  show ?case
    using ih lt unfolding fetchWeather_from_step [OF lt]
    by (auto simp: after_def split: attempt.split)
qed

lemma fetch_exhausted:
  "(\<forall>j. i \<le> j \<and> j < retries \<longrightarrow> (\<forall>w. weather_attempt fmt net city j \<noteq> Returned w))
   \<Longrightarrow> \<exists>e. snd (fetchWeather_from fmt net city retries i) = Inl e"
proof (induction "retries - i" arbitrary: i)
  case 0
  then show ?case by (simp add: fetchWeather_from_end)
next
  case (Suc k)
  then have lt: "i < retries" and k: "k = retries - Suc i"
    by simp_all
  have "\<forall>j. Suc i \<le> j \<and> j < retries \<longrightarrow> (\<forall>w. weather_attempt fmt net city j \<noteq> Returned w)"
    using Suc.prems by simp
  then have ih: "\<exists>e. snd (fetchWeather_from fmt net city retries (Suc i)) = Inl e"
    using Suc.hyps(1) [OF k] by simp
  have "\<forall>w. weather_attempt fmt net city i \<noteq> Returned w"
    using Suc.prems lt by simp
  then show ?case
    using ih unfolding fetchWeather_from_step [OF lt]
    by (simp add: after_def split: attempt.split)
qed

lemma fetch_prefix:
  "i < retries \<Longrightarrow> (\<forall>j<i. \<forall>w. weather_attempt fmt net city j \<noteq> Returned w) \<Longrightarrow>
   \<exists>pre. length pre = 2 * i
     \<and> fetchWeather_from fmt net city retries 0
         = after pre (fetchWeather_from fmt net city retries i)"
proof (induction i)
  case 0
  have "fetchWeather_from fmt net city retries 0
          = after [] (fetchWeather_from fmt net city retries 0)"
    by (simp add: after_def)
  then show ?case by (intro exI [of _ "[]"]) simp
next
  case (Suc i)
  then obtain pre where pre: "length pre = 2 * i"
    "fetchWeather_from fmt net city retries 0
       = after pre (fetchWeather_from fmt net city retries i)"
    by auto
  have nr: "\<forall>w. weather_attempt fmt net city i \<noteq> Returned w"
    using Suc.prems by simp
  have "\<exists>d. fetchWeather_from fmt net city retries i
     = after [Fetch, Wait d] (fetchWeather_from fmt net city retries (Suc i))"
    using Suc.prems(1) nr unfolding fetchWeather_from_step [OF Suc_lessD [OF Suc.prems(1)]]
    by (cases "weather_attempt fmt net city i") auto
  then obtain d where "fetchWeather_from fmt net city retries i
     = after [Fetch, Wait d] (fetchWeather_from fmt net city retries (Suc i))" ..
  then have "fetchWeather_from fmt net city retries 0
     = after (pre @ [Fetch, Wait d]) (fetchWeather_from fmt net city retries (Suc i))"
    using pre(2) by (simp add: after_after)
  moreover have "length (pre @ [Fetch, Wait d]) = 2 * Suc i"
    using pre(1) by simp
  ultimately show ?case by blast
qed

lemma fetchWeather_lone_surrogate:
  "\<not> well_formed (timezoneParam city) \<Longrightarrow> fetchWeather fmt net city retries = ([], Inl URIError)"
  by (simp add: fetchWeather_def)

lemma fetch_at:
  assumes "i < retries" and "\<forall>j<i. \<forall>w. weather_attempt fmt net city j \<noteq> Returned w"
    and wf: "well_formed (timezoneParam city)"
  shows "\<exists>pre rest.
     fst (fetchWeather fmt net city retries) = pre @ Fetch # rest \<and> length pre = 2 * i
     \<and> (\<forall>ms. weather_attempt fmt net city i = Continue ms \<longrightarrow> (\<exists>r. rest = Wait ms # r))
     \<and> (\<forall>e. weather_attempt fmt net city i = Thrown e \<and> Suc i \<noteq> retries \<longrightarrow>
            (\<exists>r. rest = Wait (500 * 2 ^ i) # r))
     \<and> (\<forall>e. weather_attempt fmt net city i = Thrown e \<and> Suc i = retries \<longrightarrow>
            rest = [] \<and> snd (fetchWeather fmt net city retries) = Inl e)
     \<and> (\<forall>w. weather_attempt fmt net city i = Returned w \<longrightarrow>
            rest = [] \<and> snd (fetchWeather fmt net city retries) = Inr w)"
proof -
  obtain pre where pre: "length pre = 2 * i"
    "fetchWeather_from fmt net city retries 0
       = after pre (fetchWeather_from fmt net city retries i)"
    using fetch_prefix [OF assms(1,2)] by blast
  let ?next = "fetchWeather_from fmt net city retries (Suc i)"
  show ?thesis
  proof (cases "weather_attempt fmt net city i")
    case (Returned w)
    then have "fetchWeather fmt net city retries = (pre @ [Fetch], Inr w)"
      using pre(2) fetchWeather_from_step [OF assms(1), of fmt net city]
      by (simp add: fetchWeather_def wf after_def)
    then show ?thesis
      using pre(1) Returned by (intro exI [of _ pre] exI [of _ "[]"]) simp
  next
    case (Continue ms)
    then have "fetchWeather fmt net city retries
        = (pre @ Fetch # Wait ms # fst ?next, snd ?next)"
      using pre(2) fetchWeather_from_step [OF assms(1), of fmt net city]
      by (simp add: fetchWeather_def wf after_def)
    then show ?thesis
      using pre(1) Continue by (intro exI [of _ pre] exI [of _ "Wait ms # fst ?next"]) simp
  next
    case (Thrown e)
    show ?thesis
    proof (cases "Suc i = retries")
      case True
      then have "fetchWeather fmt net city retries = (pre @ [Fetch], Inl e)"
        using Thrown pre(2) fetchWeather_from_step [OF assms(1), of fmt net city]
        by (simp add: fetchWeather_def wf after_def)
      then show ?thesis
        using pre(1) Thrown True by (intro exI [of _ pre] exI [of _ "[]"]) simp
    next
      case False
      then have "fetchWeather fmt net city retries
          = (pre @ Fetch # Wait (500 * 2 ^ i) # fst ?next, snd ?next)"
        using Thrown pre(2) fetchWeather_from_step [OF assms(1), of fmt net city]
        by (simp add: fetchWeather_def wf after_def)
      then show ?thesis
        using pre(1) Thrown False
        by (intro exI [of _ pre] exI [of _ "Wait (500 * 2 ^ i) # fst ?next"]) simp
    qed
  qed
qed

text \<open>
  C3. With the default \<open>retries = 3\<close>, \<open>fetchWeather\<close> calls \<open>fetch\<close> at most three
  times. When the time zone of the city cannot be encoded into the URL the call fails
  at once with no attempt at all. Otherwise
  attempt \<open>i\<close> (counted from 0) is made when no earlier attempt returned; its
  \<open>fetch\<close> is effect \<open>2 * i\<close> of the run. After a 429 the next effect is a wait of
  \<open>1500 * (i + 1)\<close> ms; after any other failure (a network error and a non-success status
  other than 429 are such failures) on attempt 0 or 1 it is a wait of \<open>500 * 2^i\<close> ms; the
  next attempt follows the wait while fewer than three have been made. A failure of the
  third attempt is rethrown at once, a returned snapshot ends the run, and when no attempt
  returns the result is an error, never a value.
\<close>

theorem fetchWeather_retry_policy:
  "length (filter (\<lambda>e. e = Fetch) (fst (fetchWeather fmt net city 3))) \<le> 3
   \<and> (\<not> well_formed (timezoneParam city) \<longrightarrow>
        fetchWeather fmt net city 3 = ([], Inl URIError))
   \<and> (well_formed (timezoneParam city) \<longrightarrow>
       (\<forall>i<3. (\<forall>j<i. \<forall>w. weather_attempt fmt net city j \<noteq> Returned w) \<longrightarrow>
         2 * i < length (fst (fetchWeather fmt net city 3))
         \<and> fst (fetchWeather fmt net city 3) ! (2 * i) = Fetch
         \<and> (\<forall>b. net i = Response 429 b \<longrightarrow>
               2 * i + 1 < length (fst (fetchWeather fmt net city 3))
               \<and> fst (fetchWeather fmt net city 3) ! (2 * i + 1) = Wait (1500 * (i + 1)))
         \<and> (\<forall>e. weather_attempt fmt net city i = Thrown e \<and> i < 2 \<longrightarrow>
               2 * i + 1 < length (fst (fetchWeather fmt net city 3))
               \<and> fst (fetchWeather fmt net city 3) ! (2 * i + 1) = Wait (500 * 2 ^ i))
         \<and> (\<forall>e. weather_attempt fmt net city i = Thrown e \<and> i = 2 \<longrightarrow>
               length (fst (fetchWeather fmt net city 3)) = 2 * i + 1
               \<and> snd (fetchWeather fmt net city 3) = Inl e)
         \<and> (\<forall>w. weather_attempt fmt net city i = Returned w \<longrightarrow>
               length (fst (fetchWeather fmt net city 3)) = 2 * i + 1
               \<and> snd (fetchWeather fmt net city 3) = Inr w)))
   \<and> (\<forall>i st b. (net i = NetworkError \<longrightarrow> weather_attempt fmt net city i = Thrown FetchRejected)
         \<and> (net i = Response st b \<and> \<not> ok st \<and> st \<noteq> 429 \<longrightarrow>
              weather_attempt fmt net city i = Thrown (ApiError st)))
   \<and> ((\<forall>i<3. \<forall>w. weather_attempt fmt net city i \<noteq> Returned w) \<longrightarrow>
        (\<exists>e. snd (fetchWeather fmt net city 3) = Inl e))"
proof (intro conjI allI impI)
  show "length (filter (\<lambda>e. e = Fetch) (fst (fetchWeather fmt net city 3))) \<le> 3"
    using fetch_count [of fmt net city 3 0] by (simp add: fetchWeather_def)
next
  assume "\<not> well_formed (timezoneParam city)"
  then show "fetchWeather fmt net city 3 = ([], Inl URIError)"
    by (rule fetchWeather_lone_surrogate)
next
  assume "\<forall>i<3. \<forall>w. weather_attempt fmt net city i \<noteq> Returned w"
  then show "\<exists>e. snd (fetchWeather fmt net city 3) = Inl e"
    using fetch_exhausted [of 0 3 fmt net city] by (simp add: fetchWeather_def)
next
  fix i assume "net i = NetworkError"
  then show "weather_attempt fmt net city i = Thrown FetchRejected"
    by (rule weather_attempt_network)
next
  fix i st b assume "net i = Response st b \<and> \<not> ok st \<and> st \<noteq> 429"
  then show "weather_attempt fmt net city i = Thrown (ApiError st)"
    by (simp add: weather_attempt_status)
next
  fix i :: nat
  assume wf: "well_formed (timezoneParam city)"
    and i: "i < 3" and prev: "\<forall>j<i. \<forall>w. weather_attempt fmt net city j \<noteq> Returned w"
  from fetch_at [OF i prev wf] obtain pre rest
    where tr: "fst (fetchWeather fmt net city 3) = pre @ Fetch # rest"
    and len: "length pre = 2 * i"
    and c: "\<forall>ms. weather_attempt fmt net city i = Continue ms \<longrightarrow> (\<exists>r. rest = Wait ms # r)"
    and t: "\<forall>e. weather_attempt fmt net city i = Thrown e \<and> Suc i \<noteq> 3 \<longrightarrow>
            (\<exists>r. rest = Wait (500 * 2 ^ i) # r)"
    and l: "\<forall>e. weather_attempt fmt net city i = Thrown e \<and> Suc i = 3 \<longrightarrow>
            rest = [] \<and> snd (fetchWeather fmt net city 3) = Inl e"
    and r: "\<forall>w. weather_attempt fmt net city i = Returned w \<longrightarrow>
            rest = [] \<and> snd (fetchWeather fmt net city 3) = Inr w"
    by (elim exE conjE) (rule that; assumption)
  show "2 * i < length (fst (fetchWeather fmt net city 3))"
    using tr len by simp
  show "fst (fetchWeather fmt net city 3) ! (2 * i) = Fetch"
    using tr len by (simp add: nth_append)
  {
    fix b assume "net i = Response 429 b"
    then have "weather_attempt fmt net city i = Continue (1500 * (i + 1))"
      by (rule weather_attempt_429)
    then obtain r' where "rest = Wait (1500 * (i + 1)) # r'"
      using c by blast
    then have tr': "fst (fetchWeather fmt net city 3) = pre @ Fetch # Wait (1500 * (i + 1)) # r'"
      using tr by simp
    show "2 * i + 1 < length (fst (fetchWeather fmt net city 3))"
      using tr' len by simp
    show "fst (fetchWeather fmt net city 3) ! (2 * i + 1) = Wait (1500 * (i + 1))"
      using len unfolding tr' by (simp add: nth_append)
  }
  {
    fix e assume "weather_attempt fmt net city i = Thrown e \<and> i < 2"
    then obtain r' where "rest = Wait (500 * 2 ^ i) # r'"
      using t by fastforce
    then have tr': "fst (fetchWeather fmt net city 3) = pre @ Fetch # Wait (500 * 2 ^ i) # r'"
      using tr by simp
    show "2 * i + 1 < length (fst (fetchWeather fmt net city 3))"
      using tr' len by simp
    show "fst (fetchWeather fmt net city 3) ! (2 * i + 1) = Wait (500 * 2 ^ i)"
      using len unfolding tr' by (simp add: nth_append)
  }
  {
    fix e assume a: "weather_attempt fmt net city i = Thrown e \<and> i = 2"
    then have "rest = [] \<and> snd (fetchWeather fmt net city 3) = Inl e"
      using l by auto
    then show "length (fst (fetchWeather fmt net city 3)) = 2 * i + 1"
      and "snd (fetchWeather fmt net city 3) = Inl e"
      using tr len by simp_all
  }
  {
    fix w assume "weather_attempt fmt net city i = Returned w"
    then have "rest = [] \<and> snd (fetchWeather fmt net city 3) = Inr w"
      using r by simp
    then show "length (fst (fetchWeather fmt net city 3)) = 2 * i + 1"
      and "snd (fetchWeather fmt net city 3) = Inr w"
      using tr len by simp_all
  }
qed

theorem fetchWeather_retry_policy_witness:
  "fst (fetchWeather (\<lambda>i tz. None)
          (\<lambda>i. if i = 0 then Response 429 Unreadable
                else if i = 1 then NetworkError else Response 503 Unreadable)
          \<lparr>id_city = js ''kyoto'', name = js ''Kyoto'', country = js ''Japan'', lat = 35,
            lng = 135, timezone = js ''Asia/Tokyo''\<rparr> 3) ! 1 = Wait 1500
   \<and> fst (fetchWeather (\<lambda>i tz. None)
          (\<lambda>i. if i = 0 then Response 429 Unreadable
                else if i = 1 then NetworkError else Response 503 Unreadable)
          \<lparr>id_city = js ''kyoto'', name = js ''Kyoto'', country = js ''Japan'', lat = 35,
            lng = 135, timezone = js ''Asia/Tokyo''\<rparr> 3) ! 3 = Wait 1000
   \<and> snd (fetchWeather (\<lambda>i tz. None)
          (\<lambda>i. if i = 0 then Response 429 Unreadable
                else if i = 1 then NetworkError else Response 503 Unreadable)
          \<lparr>id_city = js ''kyoto'', name = js ''Kyoto'', country = js ''Japan'', lat = 35,
            lng = 135, timezone = js ''Asia/Tokyo''\<rparr> 3) = Inl (ApiError 503)
   \<and> fetchWeather (\<lambda>i tz. None) (\<lambda>i. NetworkError)
          \<lparr>id_city = js ''kyoto'', name = js ''Kyoto'', country = js ''Japan'', lat = 35,
            lng = 135, timezone = [0xD800]\<rparr> 3 = ([], Inl URIError)"
proof -
  have wf: "well_formed (timezoneParam
          \<lparr>id_city = js ''kyoto'', name = js ''Kyoto'', country = js ''Japan'', lat = 35,
            lng = 135, timezone = js ''Asia/Tokyo''\<rparr>)"
    by (simp add: timezoneParam_def js_def is_high_def is_low_def)
  have bad: "\<not> well_formed (timezoneParam
          \<lparr>id_city = js ''kyoto'', name = js ''Kyoto'', country = js ''Japan'', lat = 35,
            lng = 135, timezone = [0xD800]\<rparr>)"
    by (simp add: timezoneParam_def is_high_def is_low_def)
  show ?thesis
    using fetchWeather_retry_policy
      [of "\<lambda>i tz. None"
        "\<lambda>i. if i = 0 then Response 429 Unreadable
                else if i = 1 then NetworkError else Response 503 Unreadable"
        "\<lparr>id_city = js ''kyoto'', name = js ''Kyoto'', country = js ''Japan'', lat = 35,
            lng = 135, timezone = js ''Asia/Tokyo''\<rparr>"]
      fetchWeather_retry_policy
      [of "\<lambda>i tz. None" "\<lambda>i. NetworkError"
        "\<lparr>id_city = js ''kyoto'', name = js ''Kyoto'', country = js ''Japan'', lat = 35,
            lng = 135, timezone = [0xD800]\<rparr>"]
      wf bad
    by (simp add: all_less_3 weather_attempt_def ok_def)
qed

subsection \<open>City search\<close>

lemma search_try_calls: "snd (search_try net query) \<le> 1"
  by (simp add: search_try_def split: fetch_outcome.split body.split geo_data.split option.split)

text \<open>
  C9. \<open>searchCities\<close> always resolves to a list and never rejects. A query of fewer than
  two code units gives \<open>[]\<close> with no call of \<open>fetch\<close>; a network error, a non-success
  status, and a body without \<open>results\<close> give \<open>[]\<close>. Otherwise the list is the results
  mapped to the \<open>City\<close> shape, in which a missing time zone becomes \<open>UTC\<close>.
\<close>

theorem searchCities_total:
  "(\<exists>found. fst (searchCities net query) = Inr found)
   \<and> (length query < 2 \<longrightarrow> searchCities net query = (Inr [], 0))
   \<and> (net = NetworkError \<longrightarrow> fst (searchCities net query) = Inr [])
   \<and> (net = Response st b \<and> \<not> ok st \<longrightarrow> fst (searchCities net query) = Inr [])
   \<and> (net = Response st (Json (Data None)) \<longrightarrow> fst (searchCities net query) = Inr [])
   \<and> (2 \<le> length query \<and> well_formed query \<and> ok st
        \<and> net = Response st (Json (Data (Some results))) \<longrightarrow>
        searchCities net query = (Inr (map to_city results), 1))
   \<and> (result_timezone result = None \<longrightarrow> timezone (to_city result) = js ''UTC'')
   \<and> (result_timezone result = Some tz \<and> tz \<noteq> [] \<longrightarrow> timezone (to_city result) = tz)
   \<and> id_city (to_city result) = decimal (result_id result)
   \<and> name (to_city result) = result_name result
   \<and> country (to_city result) = result_country result
   \<and> lat (to_city result) = result_latitude result
   \<and> lng (to_city result) = result_longitude result"
proof -
  have total: "\<exists>found. fst (searchCities net query) = Inr found"
    by (cases "search_try net query"; cases "fst (search_try net query)")
       (auto simp: searchCities_def)
  have short: "length query < 2 \<longrightarrow> searchCities net query = (Inr [], 0)"
    by (simp add: searchCities_def)
  have neterr: "net = NetworkError \<longrightarrow> fst (searchCities net query) = Inr []"
    by (simp add: searchCities_def search_try_def)
  have status: "net = Response st b \<and> \<not> ok st \<longrightarrow> fst (searchCities net query) = Inr []"
    by (simp add: searchCities_def search_try_def)
  have lacks: "net = Response st (Json (Data None)) \<longrightarrow> fst (searchCities net query) = Inr []"
    by (simp add: searchCities_def search_try_def)
  have found: "2 \<le> length query \<and> well_formed query \<and> ok st
        \<and> net = Response st (Json (Data (Some results))) \<longrightarrow>
        searchCities net query = (Inr (map to_city results), 1)"
    by (auto simp: searchCities_def search_try_def)
  have shape: "(result_timezone result = None \<longrightarrow> timezone (to_city result) = js ''UTC'')
   \<and> (result_timezone result = Some tz \<and> tz \<noteq> [] \<longrightarrow> timezone (to_city result) = tz)
   \<and> id_city (to_city result) = decimal (result_id result)
   \<and> name (to_city result) = result_name result
   \<and> country (to_city result) = result_country result
   \<and> lat (to_city result) = result_latitude result
   \<and> lng (to_city result) = result_longitude result"
    by (simp add: to_city_def)
  show ?thesis
    using total short neterr status lacks found shape by blast
qed

theorem searchCities_total_witness:
  "searchCities NetworkError (js ''P'') = (Inr [], 0)
   \<and> fst (searchCities NetworkError (js ''Pa'')) = Inr []
   \<and> fst (searchCities (Response 500 Unreadable) (js ''Pa'')) = Inr []
   \<and> fst (searchCities (Response 200 (Json (Data None))) (js ''Pa'')) = Inr []
   \<and> searchCities
        (Response 200 (Json (Data (Some
           [\<lparr>result_id = 2988507, result_name = js ''Paris'', result_country = js ''France'',
             result_latitude = 48, result_longitude = 2, result_timezone = None\<rparr>]))))
        (js ''Pa'')
      = (Inr [\<lparr>id_city = js ''2988507'', name = js ''Paris'', country = js ''France'',
               lat = 48, lng = 2, timezone = js ''UTC''\<rparr>], 1)"
proof -
  have a: "length (js ''P'') < 2" and b: "2 \<le> length (js ''Pa'')"
    and c: "well_formed (js ''Pa'')" and d: "ok 200" and e: "\<not> ok 500"
    by (simp_all add: js_def ok_def is_high_def is_low_def)
  have f: "to_city \<lparr>result_id = 2988507, result_name = js ''Paris'', result_country = js ''France'',
             result_latitude = 48, result_longitude = 2, result_timezone = None\<rparr>
     = \<lparr>id_city = js ''2988507'', name = js ''Paris'', country = js ''France'',
               lat = 48, lng = 2, timezone = js ''UTC''\<rparr>"
    by (simp add: to_city_def js_def)
  show ?thesis
    using searchCities_total [of NetworkError "js ''P''"]
      searchCities_total [of NetworkError "js ''Pa''"]
      searchCities_total [of "Response 500 Unreadable" "js ''Pa''" 500 Unreadable]
      searchCities_total [of "Response 200 (Json (Data None))" "js ''Pa''" 200]
      searchCities_total [of "Response 200 (Json (Data (Some
           [\<lparr>result_id = 2988507, result_name = js ''Paris'', result_country = js ''France'',
             result_latitude = 48, result_longitude = 2, result_timezone = None\<rparr>])))"
         "js ''Pa''" 200 _
         "[\<lparr>result_id = 2988507, result_name = js ''Paris'', result_country = js ''France'',
             result_latitude = 48, result_longitude = 2, result_timezone = None\<rparr>]"]
      a b c d e f
    by simp
qed

subsection \<open>The application component\<close>

lemma loadScene_begin_cache:
  "weatherCache (loadScene_begin captured city s) = weatherCache s
   \<and> cacheRef (loadScene_begin captured city s) = cacheRef s
   \<and> status (viewState (loadScene_begin captured city s)) \<noteq> Error"
  by (simp add: loadScene_begin_def split: option.split)

lemma loadScene_begin_cached:
  "captured (id_city city) = Some w \<Longrightarrow>
   weather (loadScene_begin captured city s) = Some w
   \<and> status (viewState (loadScene_begin captured city s)) = Complete"
  by (simp add: loadScene_begin_def)

lemma loadScene_resume_cached:
  "captured (id_city city) = Some w \<Longrightarrow> loadScene_resume captured city (Inl e) s = s"
  by (simp add: loadScene_resume_def)

lemma loadScene_resume_error:
  "status (viewState (loadScene_resume captured city r s)) = Error \<Longrightarrow>
   status (viewState s) \<noteq> Error \<Longrightarrow> captured (id_city city) = None \<and> (\<exists>e. r = Inl e)"
  by (cases r; cases "captured (id_city city)") (simp_all add: loadScene_resume_def)

text \<open>
  What the guard of the \<open>catch\<close> branch achieves. It reads the \<open>weatherCache\<close> of the
  closure: when that holds a snapshot for the city, a failed fetch changes nothing; the
  status moves to \<open>error\<close> only when the fetch failed and that cache holds nothing for the
  city, and then it always does, whatever the caches of the component hold by then.
\<close>

lemma loadScene_closure_cache:
  "(captured (id_city city) = Some w \<longrightarrow> loadScene_resume captured city (Inl e) s = s)
   \<and> (weatherCache s (id_city city) = Some w \<longrightarrow>
        weatherCache (loadScene city (Inl e) s) = weatherCache s
        \<and> cacheRef (loadScene city (Inl e) s) = cacheRef s
        \<and> weather (loadScene city (Inl e) s) = Some w
        \<and> status (viewState (loadScene city (Inl e) s)) = Complete)
   \<and> (status (viewState (loadScene_resume captured city r s)) = Error
        \<and> status (viewState s) \<noteq> Error \<longrightarrow>
        captured (id_city city) = None \<and> (\<exists>e'. r = Inl e'))
   \<and> (status (viewState (loadScene city r s)) = Error \<longrightarrow>
        weatherCache s (id_city city) = None \<and> (\<exists>e'. r = Inl e'))
   \<and> (captured (id_city city) = None \<longrightarrow>
        status (viewState (loadScene_resume captured city (Inl e) s)) = Error
        \<and> weather (loadScene_resume captured city (Inl e) s) = None
        \<and> weatherCache (loadScene_resume captured city (Inl e) s) = weatherCache s)"
proof -
  have a: "captured (id_city city) = Some w \<longrightarrow> loadScene_resume captured city (Inl e) s = s"
    by (simp add: loadScene_resume_cached)
  have b: "weatherCache s (id_city city) = Some w \<longrightarrow>
        weatherCache (loadScene city (Inl e) s) = weatherCache s
        \<and> cacheRef (loadScene city (Inl e) s) = cacheRef s
        \<and> weather (loadScene city (Inl e) s) = Some w
        \<and> status (viewState (loadScene city (Inl e) s)) = Complete"
    by (simp add: loadScene_def loadScene_resume_cached loadScene_begin_cache
        loadScene_begin_cached)
  have c: "status (viewState (loadScene_resume captured city r s)) = Error
        \<and> status (viewState s) \<noteq> Error \<longrightarrow>
        captured (id_city city) = None \<and> (\<exists>e'. r = Inl e')"
    using loadScene_resume_error [of captured city r s] by blast
  have d: "status (viewState (loadScene city r s)) = Error \<longrightarrow>
        weatherCache s (id_city city) = None \<and> (\<exists>e'. r = Inl e')"
    unfolding loadScene_def
    using loadScene_resume_error [of "weatherCache s" city r "loadScene_begin (weatherCache s) city s"]
      loadScene_begin_cache [of "weatherCache s" city s]
    by blast
  have f: "captured (id_city city) = None \<longrightarrow>
        status (viewState (loadScene_resume captured city (Inl e) s)) = Error
        \<and> weather (loadScene_resume captured city (Inl e) s) = None
        \<and> weatherCache (loadScene_resume captured city (Inl e) s) = weatherCache s"
    by (simp add: loadScene_resume_def)
  show ?thesis
    using a b c d f by blast
qed

text \<open>
  C1. The stale-preferred invariant does not hold in the code. The page opens on Kyoto
  with empty caches; \<open>loadScene\<close> starts and awaits its fetch; meanwhile the prefetch of
  the same city succeeds and stores the snapshot in \<open>cacheRef.current\<close> and in
  \<open>weatherCache\<close>; then the fetch of \<open>loadScene\<close> fails. The city has a cached snapshot
  at that moment, and the failure leaves both caches as they are, but the guard reads the
  empty \<open>weatherCache\<close> of the closure: the view state is set to \<open>error\<close> and the displayed
  weather is cleared.
\<close>

theorem loadScene_stale_closure:
  "weatherCache
     (prefetch_resume
        \<lparr>id_city = js ''kyoto'', name = js ''Kyoto'', country = js ''Japan'', lat = 35,
          lng = 135, timezone = js ''Asia/Tokyo''\<rparr>
        (Inr \<lparr>temperature = 4, conditionCode = 71, conditionText = js ''Slight snow fall'',
               isDay = False, localTime = js ''11:30 PM''\<rparr>)
        (loadScene_begin Map.empty
           \<lparr>id_city = js ''kyoto'', name = js ''Kyoto'', country = js ''Japan'', lat = 35,
             lng = 135, timezone = js ''Asia/Tokyo''\<rparr>
           \<lparr>cities = [\<lparr>id_city = js ''kyoto'', name = js ''Kyoto'', country = js ''Japan'',
                        lat = 35, lng = 135, timezone = js ''Asia/Tokyo''\<rparr>],
             selectedCity = Some \<lparr>id_city = js ''kyoto'', name = js ''Kyoto'',
                                   country = js ''Japan'', lat = 35, lng = 135,
                                   timezone = js ''Asia/Tokyo''\<rparr>,
             weather = None, isGridView = False, weatherCache = Map.empty,
             cacheRef = Map.empty, viewState = \<lparr>status = Idle, description = None\<rparr>\<rparr>))
     (js ''kyoto'')
   = Some \<lparr>temperature = 4, conditionCode = 71, conditionText = js ''Slight snow fall'',
            isDay = False, localTime = js ''11:30 PM''\<rparr>
   \<and> (let s3 =
          loadScene_resume Map.empty
            \<lparr>id_city = js ''kyoto'', name = js ''Kyoto'', country = js ''Japan'', lat = 35,
              lng = 135, timezone = js ''Asia/Tokyo''\<rparr>
            (Inl FetchFailed)
            (prefetch_resume
               \<lparr>id_city = js ''kyoto'', name = js ''Kyoto'', country = js ''Japan'', lat = 35,
                 lng = 135, timezone = js ''Asia/Tokyo''\<rparr>
               (Inr \<lparr>temperature = 4, conditionCode = 71,
                      conditionText = js ''Slight snow fall'', isDay = False,
                      localTime = js ''11:30 PM''\<rparr>)
               (loadScene_begin Map.empty
                  \<lparr>id_city = js ''kyoto'', name = js ''Kyoto'', country = js ''Japan'',
                    lat = 35, lng = 135, timezone = js ''Asia/Tokyo''\<rparr>
                  \<lparr>cities = [\<lparr>id_city = js ''kyoto'', name = js ''Kyoto'',
                               country = js ''Japan'', lat = 35, lng = 135,
                               timezone = js ''Asia/Tokyo''\<rparr>],
                    selectedCity = Some \<lparr>id_city = js ''kyoto'', name = js ''Kyoto'',
                                          country = js ''Japan'', lat = 35, lng = 135,
                                          timezone = js ''Asia/Tokyo''\<rparr>,
                    weather = None, isGridView = False, weatherCache = Map.empty,
                    cacheRef = Map.empty,
                    viewState = \<lparr>status = Idle, description = None\<rparr>\<rparr>))
        in status (viewState s3) = Error \<and> weather s3 = None
           \<and> weatherCache s3 (js ''kyoto'')
               = Some \<lparr>temperature = 4, conditionCode = 71,
                        conditionText = js ''Slight snow fall'', isDay = False,
                        localTime = js ''11:30 PM''\<rparr>
           \<and> cacheRef s3 (js ''kyoto'')
               = Some \<lparr>temperature = 4, conditionCode = 71,
                        conditionText = js ''Slight snow fall'', isDay = False,
                        localTime = js ''11:30 PM''\<rparr>)"
  by (simp add: loadScene_begin_def prefetch_resume_def loadScene_resume_def Let_def)

lemma handleCityChange_cities: "cities (handleCityChange city s) = cities s"
  by (simp add: handleCityChange_def Let_def)

lemma handleCityChange_selected:
  "map_option id_city (selectedCity (handleCityChange city s)) = Some (id_city city)"
  by (cases "selectedCity s") (simp_all add: handleCityChange_def Let_def)

text \<open>
  C10. If some city of the list has the id of the new city, or its name and country,
  \<open>handleAddCity\<close> leaves the list as it is and the selection ends on a city with the id
  of the first such entry. Otherwise the new city is appended at the end. So a list
  without two equal ids stays so, and a list without two equal (name, country) pairs
  stays so.
\<close>

theorem handleAddCity_unique:
  "((\<exists>c \<in> set (cities s).
        id_city c = id_city newCity \<or> (name c = name newCity \<and> country c = country newCity))
      \<longrightarrow> cities (handleAddCity newCity s) = cities s
        \<and> (\<exists>c \<in> set (cities s).
              (id_city c = id_city newCity
               \<or> (name c = name newCity \<and> country c = country newCity))
              \<and> find (same_city newCity) (cities s) = Some c
              \<and> map_option id_city (selectedCity (handleAddCity newCity s)) = Some (id_city c)))
   \<and> ((\<forall>c \<in> set (cities s).
        \<not> (id_city c = id_city newCity \<or> (name c = name newCity \<and> country c = country newCity)))
      \<longrightarrow> cities (handleAddCity newCity s) = cities s @ [newCity]
        \<and> map_option id_city (selectedCity (handleAddCity newCity s)) = Some (id_city newCity))
   \<and> (distinct (map id_city (cities s)) \<longrightarrow>
        distinct (map id_city (cities (handleAddCity newCity s))))
   \<and> (distinct (map (\<lambda>c. (name c, country c)) (cities s)) \<longrightarrow>
        distinct (map (\<lambda>c. (name c, country c)) (cities (handleAddCity newCity s))))"
proof (cases "find (same_city newCity) (cities s)")
  case None
  then have no: "\<forall>c \<in> set (cities s). \<not> same_city newCity c"
    by (simp add: find_None_iff)
  have cs: "cities (handleAddCity newCity s) = cities s @ [newCity]"
    using None by (simp add: handleAddCity_def handleCityChange_cities)
  have sel: "map_option id_city (selectedCity (handleAddCity newCity s)) = Some (id_city newCity)"
    using None by (simp add: handleAddCity_def handleCityChange_selected)
  have d1: "distinct (map id_city (cities s)) \<longrightarrow>
        distinct (map id_city (cities (handleAddCity newCity s)))"
    using no unfolding cs by (auto simp: same_city_def)
  have d2: "distinct (map (\<lambda>c. (name c, country c)) (cities s)) \<longrightarrow>
        distinct (map (\<lambda>c. (name c, country c)) (cities (handleAddCity newCity s)))"
    using no unfolding cs by (auto simp: same_city_def)
  show ?thesis
    using no cs sel d1 d2 unfolding same_city_def by blast
next
  case (Some c)
  then have c: "c \<in> set (cities s)" "same_city newCity c"
    by (auto simp: find_Some_iff)
  have cs: "cities (handleAddCity newCity s) = cities s"
    using Some by (simp add: handleAddCity_def handleCityChange_cities)
  have sel: "map_option id_city (selectedCity (handleAddCity newCity s)) = Some (id_city c)"
    using Some by (simp add: handleAddCity_def handleCityChange_selected)
  show ?thesis
    using c Some sel unfolding cs same_city_def by blast
qed

theorem handleAddCity_unique_witness:
  "cities (handleAddCity
      \<lparr>id_city = js ''1850147'', name = js ''Kyoto'', country = js ''Japan'', lat = 35,
        lng = 135, timezone = js ''Asia/Tokyo''\<rparr>
      \<lparr>cities = [\<lparr>id_city = js ''kyoto'', name = js ''Kyoto'', country = js ''Japan'',
                   lat = 35, lng = 135, timezone = js ''Asia/Tokyo''\<rparr>],
        selectedCity = None, weather = None, isGridView = True, weatherCache = Map.empty,
        cacheRef = Map.empty, viewState = \<lparr>status = Idle, description = None\<rparr>\<rparr>)
   = [\<lparr>id_city = js ''kyoto'', name = js ''Kyoto'', country = js ''Japan'',
        lat = 35, lng = 135, timezone = js ''Asia/Tokyo''\<rparr>]
   \<and> cities (handleAddCity
      \<lparr>id_city = js ''2988507'', name = js ''Paris'', country = js ''France'', lat = 48,
        lng = 2, timezone = js ''Europe/Paris''\<rparr>
      \<lparr>cities = [\<lparr>id_city = js ''kyoto'', name = js ''Kyoto'', country = js ''Japan'',
                   lat = 35, lng = 135, timezone = js ''Asia/Tokyo''\<rparr>],
        selectedCity = None, weather = None, isGridView = True, weatherCache = Map.empty,
        cacheRef = Map.empty, viewState = \<lparr>status = Idle, description = None\<rparr>\<rparr>)
   = [\<lparr>id_city = js ''kyoto'', name = js ''Kyoto'', country = js ''Japan'',
        lat = 35, lng = 135, timezone = js ''Asia/Tokyo''\<rparr>,
      \<lparr>id_city = js ''2988507'', name = js ''Paris'', country = js ''France'', lat = 48,
        lng = 2, timezone = js ''Europe/Paris''\<rparr>]
   \<and> distinct (map id_city (cities (handleAddCity
      \<lparr>id_city = js ''2988507'', name = js ''Paris'', country = js ''France'', lat = 48,
        lng = 2, timezone = js ''Europe/Paris''\<rparr>
      \<lparr>cities = [\<lparr>id_city = js ''kyoto'', name = js ''Kyoto'', country = js ''Japan'',
                   lat = 35, lng = 135, timezone = js ''Asia/Tokyo''\<rparr>],
        selectedCity = None, weather = None, isGridView = True, weatherCache = Map.empty,
        cacheRef = Map.empty, viewState = \<lparr>status = Idle, description = None\<rparr>\<rparr>)))"
  using handleAddCity_unique
    [of "\<lparr>cities = [\<lparr>id_city = js ''kyoto'', name = js ''Kyoto'', country = js ''Japan'',
                   lat = 35, lng = 135, timezone = js ''Asia/Tokyo''\<rparr>],
        selectedCity = None, weather = None, isGridView = True, weatherCache = Map.empty,
        cacheRef = Map.empty, viewState = \<lparr>status = Idle, description = None\<rparr>\<rparr>"
        "\<lparr>id_city = js ''1850147'', name = js ''Kyoto'', country = js ''Japan'', lat = 35,
        lng = 135, timezone = js ''Asia/Tokyo''\<rparr>"]
    handleAddCity_unique
    [of "\<lparr>cities = [\<lparr>id_city = js ''kyoto'', name = js ''Kyoto'', country = js ''Japan'',
                   lat = 35, lng = 135, timezone = js ''Asia/Tokyo''\<rparr>],
        selectedCity = None, weather = None, isGridView = True, weatherCache = Map.empty,
        cacheRef = Map.empty, viewState = \<lparr>status = Idle, description = None\<rparr>\<rparr>"
        "\<lparr>id_city = js ''2988507'', name = js ''Paris'', country = js ''France'', lat = 48,
        lng = 2, timezone = js ''Europe/Paris''\<rparr>"]
  by (simp add: js_def)

subsection \<open>Manifest cache\<close>

lemma inv_initial: "inv initial"
  by (simp add: inv_def initial_def)

lemma inv_fresh:
  assumes "inv s" and "manifestCache s c = None" and "pendingManifests s c = None"
  shows "c \<notin> set (requests s)"
proof
  assume "c \<in> set (requests s)"
  then obtain k where k: "k < length (requests s)" "requests s ! k = c"
    by (auto simp: in_set_conv_nth)
  show False
  proof (cases "handled s k")
    case None
    then have "pendingManifests s (requests s ! k) = Some k"
      using assms(1) k(1) by (simp add: inv_def)
    then show False using assms(3) k(2) by simp
  next
    case (Some m)
    then have "manifestCache s (requests s ! k) \<noteq> None"
      using assms(1) by (simp add: inv_def)
    then show False using assms(2) k(2) by simp
  qed
qed

lemma fetch_cached:
  "manifestCache s c = Some m \<Longrightarrow> fetchFolderManifest c s = (Cached m, s)"
  by (simp add: fetchFolderManifest_def)

lemma fetch_pending:
  "manifestCache s c = None \<Longrightarrow> pendingManifests s c = Some k
     \<Longrightarrow> fetchFolderManifest c s = (Pending k, s)"
  by (simp add: fetchFolderManifest_def)

lemma fetch_new:
  "manifestCache s c = None \<Longrightarrow> pendingManifests s c = None
     \<Longrightarrow> fetchFolderManifest c s =
          (Pending (length (requests s)),
           s\<lparr>requests := requests s @ [c],
             pendingManifests := (pendingManifests s)(c \<mapsto> length (requests s))\<rparr>)"
  by (simp add: fetchFolderManifest_def)

lemma inv_call:
  assumes "inv s"
  shows "inv (snd (fetchFolderManifest c s))"
proof (cases "manifestCache s c")
  case (Some m)
  then show ?thesis using assms by (simp add: fetch_cached)
next
  case None
  show ?thesis
  proof (cases "pendingManifests s c")
    case (Some k)
    then show ?thesis using assms None by (simp add: fetch_pending)
  next
    case pn: None
    have fresh: "c \<notin> set (requests s)"
      using assms None pn by (rule inv_fresh)
    let ?s' = "s\<lparr>requests := requests s @ [c],
             pendingManifests := (pendingManifests s)(c \<mapsto> length (requests s))\<rparr>"
    have h: "\<forall>k. handled s k \<noteq> None \<longrightarrow>
        k < length (requests s) \<and> manifestCache s (requests s ! k) \<noteq> None"
      and o: "\<forall>k < length (requests s). handled s k = None \<longrightarrow>
          manifestCache s (requests s ! k) = None
          \<and> pendingManifests s (requests s ! k) = Some k"
      and r: "\<forall>k. resolved s k \<noteq> None \<longrightarrow> resolved s k = handled s k"
      and d: "distinct (requests s)"
      using assms by (simp_all add: inv_def)
    have "inv ?s'"
      unfolding inv_def
    proof (intro conjI allI impI)
      fix k assume "handled ?s' k \<noteq> None"
      then have "k < length (requests s) \<and> manifestCache s (requests s ! k) \<noteq> None"
        using h by simp
      then show "k < length (requests ?s')" and "manifestCache ?s' (requests ?s' ! k) \<noteq> None"
        by (simp_all add: nth_append)
    next
      fix k assume k: "k < length (requests ?s')" and u: "handled ?s' k = None"
      show "manifestCache ?s' (requests ?s' ! k) = None"
      proof (cases "k < length (requests s)")
        case True
        then show ?thesis using o u by (simp add: nth_append)
      next
        case False
        then have "k = length (requests s)" using k by simp
        then show ?thesis using None by simp
      qed
      show "pendingManifests ?s' (requests ?s' ! k) = Some k"
      proof (cases "k < length (requests s)")
        case True
        then have "requests s ! k \<noteq> c" using fresh by (metis nth_mem)
        then show ?thesis using True o u by (simp add: nth_append)
      next
        case False
        then have "k = length (requests s)" using k by simp
        then show ?thesis by simp
      qed
    next
      fix k assume "resolved ?s' k \<noteq> None"
      then show "resolved ?s' k = handled ?s' k" using r by simp
    next
      show "distinct (requests ?s')" using d fresh by simp
    qed
    then show ?thesis using None pn by (simp add: fetch_new)
  qed
qed

lemma inv_settled:
  assumes "inv s" and "k < length (requests s)" and "handled s k = None"
  shows "inv (on_settled k outcome s)"
proof -
  have h: "\<forall>j. handled s j \<noteq> None \<longrightarrow>
        j < length (requests s) \<and> manifestCache s (requests s ! j) \<noteq> None"
    and o: "\<forall>j < length (requests s). handled s j = None \<longrightarrow>
          manifestCache s (requests s ! j) = None
          \<and> pendingManifests s (requests s ! j) = Some j"
    and r: "\<forall>j. resolved s j \<noteq> None \<longrightarrow> resolved s j = handled s j"
    and d: "distinct (requests s)"
    using assms(1) by (simp_all add: inv_def)
  show ?thesis
    unfolding inv_def
  proof (intro conjI allI impI)
    fix j assume "handled (on_settled k outcome s) j \<noteq> None"
    then have "j = k \<or> handled s j \<noteq> None"
      by (auto simp: on_settled_def split: if_splits)
    then show "j < length (requests (on_settled k outcome s))"
      and "manifestCache (on_settled k outcome s) (requests (on_settled k outcome s) ! j) \<noteq> None"
      using assms(2) h by (auto simp: on_settled_def)
  next
    fix j assume j: "j < length (requests (on_settled k outcome s))"
      and u: "handled (on_settled k outcome s) j = None"
    then have jk: "j \<noteq> k" and uj: "handled s j = None" and jl: "j < length (requests s)"
      by (auto simp: on_settled_def split: if_splits)
    then have "requests s ! j \<noteq> requests s ! k"
      using d assms(2) by (simp add: nth_eq_iff_index_eq)
    then show "manifestCache (on_settled k outcome s) (requests (on_settled k outcome s) ! j) = None"
      and "pendingManifests (on_settled k outcome s) (requests (on_settled k outcome s) ! j) = Some j"
      using o uj jl by (simp_all add: on_settled_def)
  next
    fix j assume "resolved (on_settled k outcome s) j \<noteq> None"
    then have rj: "resolved s j \<noteq> None"
      by (simp add: on_settled_def)
    then have "j \<noteq> k"
      using r assms(3) by auto
    then show "resolved (on_settled k outcome s) j = handled (on_settled k outcome s) j"
      using r rj by (simp add: on_settled_def)
  next
    show "distinct (requests (on_settled k outcome s))"
      using d by (simp add: on_settled_def)
  qed
qed

lemma inv_finally:
  assumes "inv s" and "handled s k \<noteq> None"
  shows "inv (on_finally k s)"
proof -
  have h: "\<forall>j. handled s j \<noteq> None \<longrightarrow>
        j < length (requests s) \<and> manifestCache s (requests s ! j) \<noteq> None"
    and o: "\<forall>j < length (requests s). handled s j = None \<longrightarrow>
          manifestCache s (requests s ! j) = None
          \<and> pendingManifests s (requests s ! j) = Some j"
    and r: "\<forall>j. resolved s j \<noteq> None \<longrightarrow> resolved s j = handled s j"
    and d: "distinct (requests s)"
    using assms(1) by (simp_all add: inv_def)
  have kc: "manifestCache s (requests s ! k) \<noteq> None"
    using h assms(2) by simp
  show ?thesis
    unfolding inv_def
  proof (intro conjI allI impI)
    fix j assume "handled (on_finally k s) j \<noteq> None"
    then show "j < length (requests (on_finally k s))"
      and "manifestCache (on_finally k s) (requests (on_finally k s) ! j) \<noteq> None"
      using h by (simp_all add: on_finally_def)
  next
    fix j assume j: "j < length (requests (on_finally k s))"
      and u: "handled (on_finally k s) j = None"
    then have c: "manifestCache s (requests s ! j) = None"
      and p: "pendingManifests s (requests s ! j) = Some j"
      using o by (simp_all add: on_finally_def)
    have "requests s ! j \<noteq> requests s ! k"
      using c kc by auto
    then show "manifestCache (on_finally k s) (requests (on_finally k s) ! j) = None"
      and "pendingManifests (on_finally k s) (requests (on_finally k s) ! j) = Some j"
      using c p by (simp_all add: on_finally_def)
  next
    fix j assume "resolved (on_finally k s) j \<noteq> None"
    then show "resolved (on_finally k s) j = handled (on_finally k s) j"
      using r by (simp add: on_finally_def split: if_splits)
  next
    show "distinct (requests (on_finally k s))"
      using d by (simp add: on_finally_def)
  qed
qed

lemma inv_step: "inv s \<Longrightarrow> step ev s = Some s' \<Longrightarrow> inv s'"
proof (cases ev)
  case (Calls c)
  assume "inv s" and "step ev s = Some s'"
  then have "s' = (snd (fetchFolderManifest c s))\<lparr>answers := answers (snd (fetchFolderManifest c s)) @ [(c, fst (fetchFolderManifest c s))]\<rparr>"
    using Calls by (auto simp: step_def split: prod.splits)
  moreover have "inv (snd (fetchFolderManifest c s))"
    using \<open>inv s\<close> by (rule inv_call)
  ultimately show "inv s'"
    by (simp add: inv_def)
next
  case (Settles k outcome)
  assume "inv s" and "step ev s = Some s'"
  then show "inv s'"
    using Settles by (auto simp: step_def inv_settled split: if_splits)
next
  case (Finishes k)
  assume "inv s" and "step ev s = Some s'"
  then show "inv s'"
    using Finishes by (auto simp: step_def inv_finally split: if_splits)
qed

lemma inv_run: "inv s \<Longrightarrow> run evs s = Some s' \<Longrightarrow> inv s'"
proof (induction evs arbitrary: s)
  case Nil
  then show ?case by simp
next
  case (Cons ev evs)
  then obtain s1 where s1: "step ev s = Some s1" "run evs s1 = Some s'"
    by (auto split: option.splits)
  then have "inv s1" using Cons.prems(1) by (simp add: inv_step)
  then show ?case using s1(2) by (rule Cons.IH)
qed


lemma step_cases:
  assumes "step ev s = Some s'"
  obtains (call) c where "ev = Calls c"
      "s' = (snd (fetchFolderManifest c s))
              \<lparr>answers := answers (snd (fetchFolderManifest c s)) @ [(c, fst (fetchFolderManifest c s))]\<rparr>"
  | (settle) k outcome where "ev = Settles k outcome" "k < length (requests s)"
      "handled s k = None" "s' = on_settled k outcome s"
  | (finish) k where "ev = Finishes k" "handled s k \<noteq> None" "resolved s k = None"
      "s' = on_finally k s"
  using assms by (cases ev) (auto simp: step_def split: prod.splits if_splits)

lemma fetch_cache_same: "manifestCache (snd (fetchFolderManifest c s)) = manifestCache s"
  by (simp add: fetchFolderManifest_def split: option.split)

lemma fetch_handled_same: "handled (snd (fetchFolderManifest c s)) = handled s"
  by (simp add: fetchFolderManifest_def split: option.split)

lemma fetch_resolved_same: "resolved (snd (fetchFolderManifest c s)) = resolved s"
  by (simp add: fetchFolderManifest_def split: option.split)

lemma fetch_answers_same: "answers (snd (fetchFolderManifest c s)) = answers s"
  by (simp add: fetchFolderManifest_def split: option.split)

lemma fetch_requests_grow: "\<exists>ext. requests (snd (fetchFolderManifest c s)) = requests s @ ext"
  by (simp add: fetchFolderManifest_def split: option.split)

lemma step_requests_grow: "step ev s = Some s' \<Longrightarrow> \<exists>ext. requests s' = requests s @ ext"
  by (erule step_cases) (use fetch_requests_grow in \<open>auto simp: on_settled_def on_finally_def\<close>)

lemma step_cache_stable:
  assumes "inv s" and "manifestCache s c = Some m" and "step ev s = Some s'"
  shows "manifestCache s' c = Some m"
  using assms(3)
proof (cases rule: step_cases)
  case (call c')
  then show ?thesis using assms(2) by (simp add: fetch_cache_same)
next
  case (settle k outcome)
  then have "manifestCache s (requests s ! k) = None"
    using assms(1) by (simp add: inv_def)
  then have "requests s ! k \<noteq> c"
    using assms(2) by auto
  then show ?thesis using settle(4) assms(2) by (simp add: on_settled_def)
next
  case (finish k)
  then show ?thesis using assms(2) by (simp add: on_finally_def)
qed

lemma step_handled_stable:
  assumes "handled s k = Some m" and "step ev s = Some s'"
  shows "handled s' k = Some m"
  using assms(2)
proof (cases rule: step_cases)
  case (call c')
  then show ?thesis using assms(1) by (simp add: fetch_handled_same)
next
  case (settle j outcome)
  then have "j \<noteq> k" using assms(1) by auto
  then show ?thesis using settle(4) assms(1) by (simp add: on_settled_def)
next
  case (finish j)
  then show ?thesis using assms(1) by (simp add: on_finally_def)
qed

lemma step_answers:
  assumes "step ev s = Some s'"
  shows "answers s' =
     answers s @ (case ev of Calls c \<Rightarrow> [(c, fst (fetchFolderManifest c s))] | _ \<Rightarrow> [])"
  using assms
  by (cases rule: step_cases) (simp_all add: fetch_answers_same on_settled_def on_finally_def)

lemma run_cache_stable:
  "inv s \<Longrightarrow> manifestCache s c = Some m \<Longrightarrow> run evs s = Some s' \<Longrightarrow> manifestCache s' c = Some m"
proof (induction evs arbitrary: s)
  case Nil
  then show ?case by simp
next
  case (Cons ev evs)
  then obtain s1 where s1: "step ev s = Some s1" "run evs s1 = Some s'"
    by (auto split: option.splits)
  have "inv s1" using Cons.prems(1) s1(1) by (rule inv_step)
  moreover have "manifestCache s1 c = Some m"
    using Cons.prems(1,2) s1(1) by (rule step_cache_stable)
  ultimately show ?case using s1(2) by (rule Cons.IH)
qed

lemma run_handled_stable:
  "handled s k = Some m \<Longrightarrow> run evs s = Some s' \<Longrightarrow> handled s' k = Some m"
proof (induction evs arbitrary: s)
  case Nil
  then show ?case by simp
next
  case (Cons ev evs)
  then obtain s1 where s1: "step ev s = Some s1" "run evs s1 = Some s'"
    by (auto split: option.splits)
  have "handled s1 k = Some m"
    using Cons.prems(1) s1(1) by (rule step_handled_stable)
  then show ?case using s1(2) by (rule Cons.IH)
qed

lemma run_requests_grow: "run evs s = Some s' \<Longrightarrow> \<exists>ext. requests s' = requests s @ ext"
proof (induction evs arbitrary: s)
  case Nil
  then show ?case by simp
next
  case (Cons ev evs)
  then obtain s1 where s1: "step ev s = Some s1" "run evs s1 = Some s'"
    by (auto split: option.splits)
  obtain e1 where "requests s1 = requests s @ e1"
    using step_requests_grow [OF s1(1)] by blast
  moreover obtain e2 where "requests s' = requests s1 @ e2"
    using Cons.IH [OF s1(2)] by blast
  ultimately show ?case by simp
qed

lemma run_answers_cached:
  "inv s \<Longrightarrow> manifestCache s c = Some m \<Longrightarrow> run evs s = Some s' \<Longrightarrow>
   \<exists>new. answers s' = answers s @ new \<and> (\<forall>(c', a) \<in> set new. c' = c \<longrightarrow> a = Cached m)"
proof (induction evs arbitrary: s)
  case Nil
  then show ?case by simp
next
  case (Cons ev evs)
  then obtain s1 where s1: "step ev s = Some s1" "run evs s1 = Some s'"
    by (auto split: option.splits)
  have i1: "inv s1" using Cons.prems(1) s1(1) by (rule inv_step)
  have c1: "manifestCache s1 c = Some m"
    using Cons.prems(1,2) s1(1) by (rule step_cache_stable)
  obtain new where new: "answers s' = answers s1 @ new"
    "\<forall>(c', a) \<in> set new. c' = c \<longrightarrow> a = Cached m"
    using Cons.IH [OF i1 c1 s1(2)] by blast
  let ?first = "case ev of Calls c' \<Rightarrow> [(c', fst (fetchFolderManifest c' s))] | _ \<Rightarrow> []"
  have a1: "answers s1 = answers s @ ?first"
    using s1(1) by (rule step_answers)
  have "\<forall>(c', a) \<in> set ?first. c' = c \<longrightarrow> a = Cached m"
    using Cons.prems(2) by (cases ev) (simp_all add: fetch_cached)
  then have "\<forall>(c', a) \<in> set (?first @ new). c' = c \<longrightarrow> a = Cached m"
    using new(2) by auto
  moreover have "answers s' = answers s @ ?first @ new"
    using new(1) a1 by simp
  ultimately show ?case by blast
qed


lemma count_list_distinct: "distinct xs \<Longrightarrow> x \<in> set xs \<Longrightarrow> count_list xs x = 1"
  by (induction xs) auto

lemma manifest_of_failure:
  "outcome = NetworkError \<or> (outcome = Response st b \<and> \<not> ok st) \<or> outcome = Response st Unreadable
     \<Longrightarrow> manifest_of outcome = []"
  by (auto simp: manifest_of_def)


lemma run_append:
  "run (xs @ ys) s = (case run xs s of None \<Rightarrow> None | Some s1 \<Rightarrow> run ys s1)"
  by (induction xs arbitrary: s) (simp_all split: option.split)

lemma inv_resolved: "inv s \<Longrightarrow> resolved s k \<noteq> None \<Longrightarrow> resolved s k = handled s k"
  unfolding inv_def by blast

text \<open>
  C4. Take any run of the module and a request \<open>k\<close> that is still out. When it fails
  (the fetch rejects, the status is not a success, or the body cannot be parsed), its
  callback returns \<open>[]\<close> and stores \<open>[]\<close> in the cache for its category; the \<open>finally\<close>
  callback can then run, and whenever it runs the promise is fulfilled with \<open>[]\<close>, so
  the call resolves to the empty sequence. After that,
  however the run goes on, the cache entry stays \<open>[]\<close>, every call for the category is
  answered with the cached \<open>[]\<close> and leaves the state as it is, and the category has been
  requested exactly once.
\<close>

theorem manifest_failure_memoized:
  assumes "run before initial = Some s"
    and "step (Settles k outcome) s = Some s1"
    and "outcome = NetworkError \<or> (outcome = Response st b \<and> \<not> ok st)
         \<or> outcome = Response st Unreadable"
    and "run later s1 = Some s'"
  shows "handled s' k = Some []
     \<and> (resolved s' k \<noteq> None \<longrightarrow> resolved s' k = Some [])
     \<and> manifestCache s1 (requests s ! k) = Some []
     \<and> manifestCache s' (requests s ! k) = Some []
     \<and> fetchFolderManifest (requests s ! k) s' = (Cached [], s')
     \<and> count_list (requests s') (requests s ! k) = 1
     \<and> (\<exists>new. answers s' = answers s @ new
           \<and> (\<forall>(c', a) \<in> set new. c' = requests s ! k \<longrightarrow> a = Cached []))
     \<and> (\<exists>s3. step (Finishes k) s1 = Some s3 \<and> resolved s3 k = Some [])
     \<and> (\<forall>s3. step (Finishes k) s' = Some s3 \<longrightarrow> resolved s3 k = Some [])"
proof -
  have i: "inv s"
    using inv_initial assms(1) by (rule inv_run)
  have k: "k < length (requests s)" and s1: "s1 = on_settled k outcome s"
    and out: "handled s k = None"
    using assms(2) by (auto simp: step_def split: if_splits)
  have i1: "inv s1"
    using i assms(2) by (rule inv_step)
  have i': "inv s'"
    using i1 assms(4) by (rule inv_run)
  have empty: "manifest_of outcome = []"
    using assms(3) by (rule manifest_of_failure)
  have h1: "handled s1 k = Some []" and c1: "manifestCache s1 (requests s ! k) = Some []"
    and a1: "answers s1 = answers s" and r1: "requests s1 = requests s"
    using empty by (simp_all add: s1 on_settled_def)
  have h': "handled s' k = Some []"
    using h1 assms(4) by (rule run_handled_stable)
  have r': "resolved s' k \<noteq> None \<longrightarrow> resolved s' k = Some []"
    using inv_resolved [OF i', of k] h' by simp
  have c': "manifestCache s' (requests s ! k) = Some []"
    using i1 c1 assms(4) by (rule run_cache_stable)
  have f': "fetchFolderManifest (requests s ! k) s' = (Cached [], s')"
    using c' by (rule fetch_cached)
  obtain ext where "requests s' = requests s1 @ ext"
    using run_requests_grow [OF assms(4)] by blast
  then have "requests s ! k \<in> set (requests s')"
    using k r1 by simp
  moreover have "distinct (requests s')"
    using i' by (simp add: inv_def)
  ultimately have n': "count_list (requests s') (requests s ! k) = 1"
    by (simp add: count_list_distinct)
  have l': "\<exists>new. answers s' = answers s @ new
           \<and> (\<forall>(c', a) \<in> set new. c' = requests s ! k \<longrightarrow> a = Cached [])"
    using run_answers_cached [OF i1 c1 assms(4)] a1 by simp
  have "resolved s k = None"
  proof (rule ccontr)
    assume "resolved s k \<noteq> None"
    with i have "resolved s k = handled s k"
      by (rule inv_resolved)
    then show False
      using \<open>resolved s k \<noteq> None\<close> out by simp
  qed
  then have "resolved s1 k = None"
    by (simp add: s1 on_settled_def)
  then have "step (Finishes k) s1 = Some (on_finally k s1)"
    using h1 by (simp add: step_def)
  moreover have "resolved (on_finally k s1) k = Some []"
    using h1 by (simp add: on_finally_def)
  ultimately have p1: "\<exists>s3. step (Finishes k) s1 = Some s3 \<and> resolved s3 k = Some []"
    by blast
  have p': "\<forall>s3. step (Finishes k) s' = Some s3 \<longrightarrow> resolved s3 k = Some []"
  proof (intro allI impI)
    fix s3 assume "step (Finishes k) s' = Some s3"
    then have "s3 = on_finally k s'"
      by (auto simp: step_def split: if_splits)
    then show "resolved s3 k = Some []"
      using h' by (simp add: on_finally_def)
  qed
  show ?thesis
    using h' r' c1 c' f' n' l' p1 p' by blast
qed

theorem manifest_failure_memoized_witness:
  "\<exists>s'. run [Calls (js ''snow-night''), Calls (js ''rain-day''), Settles 0 (Response 404 Unreadable),
            Calls (js ''snow-night''), Finishes 0, Calls (js ''snow-night'')] initial = Some s'
     \<and> manifestCache s' (js ''snow-night'') = Some []
     \<and> count_list (requests s') (js ''snow-night'') = 1
     \<and> resolved s' 0 = Some []
     \<and> fetchFolderManifest (js ''snow-night'') s' = (Cached [], s')"
proof -
  obtain s where s: "run [Calls (js ''snow-night''), Calls (js ''rain-day'')] initial = Some s"
    by (simp add: step_def fetchFolderManifest_def initial_def js_def)
  have c: "requests s ! 0 = js ''snow-night''"
    using s by (auto simp: step_def fetchFolderManifest_def initial_def js_def)
  obtain s1 where s1: "step (Settles 0 (Response 404 Unreadable)) s = Some s1"
    using s by (auto simp: step_def fetchFolderManifest_def initial_def js_def)
  obtain s' where s': "run [Calls (js ''snow-night''), Finishes 0, Calls (js ''snow-night'')] s1 = Some s'"
    using s s1
    by (auto simp: step_def fetchFolderManifest_def initial_def js_def on_settled_def on_finally_def)
  have f: "Response 404 Unreadable = NetworkError
      \<or> (Response 404 Unreadable = Response 404 Unreadable \<and> \<not> ok 404)
      \<or> Response 404 Unreadable = Response 404 (Unreadable :: FolderManifest body)"
    by (simp add: ok_def)
  have all: "run ([Calls (js ''snow-night''), Calls (js ''rain-day'')]
               @ Settles 0 (Response 404 Unreadable)
               # [Calls (js ''snow-night''), Finishes 0, Calls (js ''snow-night'')]) initial = Some s'"
    using s s1 s' by (simp only: run_append run.simps option.case)
  have r: "resolved s' 0 \<noteq> None"
    using s s1 s'
    by (auto simp: step_def fetchFolderManifest_def initial_def js_def on_settled_def on_finally_def
        split: if_splits)
  show ?thesis
    using manifest_failure_memoized [OF s s1 f s'] c all r by auto
qed





end
